theory Spec2Isabelle
  imports Complex_Main
begin

section \<open>Python values used by the notebook\<close>

text \<open>
  The notebook \<^verbatim>\<open>content/ch-demos/piday-code.ipynb\<close> is a linear Python script.
  Python's unbounded \<^verbatim>\<open>int\<close> is \<^typ>\<open>int\<close>. A Python \<^verbatim>\<open>float\<close> is read as the real
  number it stands for, of type \<^typ>\<open>real\<close>: the rounding of its value is not part of
  this development. Its finite range is, where the builders turn integers into floats
  (see \<open>py_float\<close> and \<open>py_truediv\<close> below).
\<close>

datatype error = ValueError | ZeroDivisionError | OverflowError | BackendError string

definition py_range :: "int \<Rightarrow> int list" where
  \<comment> \<open>\<^verbatim>\<open>range(k)\<close>: 0, 1, ..., k-1; empty when k <= 0\<close>
  "py_range k = map int [0..<nat k]"

definition py_range2 :: "int \<Rightarrow> int \<Rightarrow> int list" where
  \<comment> \<open>\<^verbatim>\<open>range(a, b)\<close>: a, a+1, ..., b-1; empty when b <= a\<close>
  "py_range2 a b = map (\<lambda>i. a + int i) [0..<nat (b - a)]"

definition py_int :: "real \<Rightarrow> int" where
  \<comment> \<open>\<^verbatim>\<open>int(x)\<close> on a float: truncation toward zero\<close>
  "py_int x = (if 0 \<le> x then \<lfloor>x\<rfloor> else \<lceil>x\<rceil>)"

text \<open>
  A float is a binary64 double: the largest is \<open>2 ^ 1024 - 2 ^ 971\<close>, and a number that
  rounds (to nearest, ties to even) to \<open>2 ^ 1024\<close> has no float. That is every magnitude
  from \<open>2 ^ 1024 - 2 ^ 970\<close> on, the point halfway between the two. \<^verbatim>\<open>float(i)\<close> on an
  integer and \<^verbatim>\<open>a / b\<close> on two integers raise \<^verbatim>\<open>OverflowError\<close> there; both round
  correctly, and below the bound the model keeps the exact value.
\<close>

definition float_overflow :: "real \<Rightarrow> bool" where
  "float_overflow v = (2 ^ 1024 - 2 ^ 970 \<le> \<bar>v\<bar>)"

definition py_float :: "int \<Rightarrow> error + real" where
  \<comment> \<open>\<^verbatim>\<open>float(i)\<close> on an integer\<close>
  "py_float i =
     (if float_overflow (real_of_int i) then Inl OverflowError else Inr (real_of_int i))"

definition py_truediv :: "int \<Rightarrow> int \<Rightarrow> error + real" where
  \<comment> \<open>\<^verbatim>\<open>a / b\<close> on two integers\<close>
  "py_truediv a b =
     (if b = 0 then Inl ZeroDivisionError
      else if float_overflow (real_of_int a / real_of_int b) then Inl OverflowError
      else Inr (real_of_int a / real_of_int b))"

definition np_pi :: real where
  \<comment> \<open>\<^verbatim>\<open>np.pi\<close>, numpy's constant for the circle number\<close>
  "np_pi = pi"

section \<open>Circuits\<close>

text \<open>
  An instruction of a circuit: the gate with its parameter and the indices of the
  qubits (and classical bits) it acts on, as the notebook passes them.
\<close>

datatype instr =
    is_Swap: Swap int int
  | is_CU1: CU1 real int int
  | is_H: H int
  | is_X: X int
  | is_Barrier: Barrier
  | is_Measure: Measure int int

text \<open>
  Modelled from the spec: the circuit class \<^verbatim>\<open>QuantumCircuit\<close> and its gate methods
  belong to the quantum-computing library the notebook imports, which is not part of the
  source. Following the spec's data model, a circuit is an ordered sequence of gate
  operations over a fixed number of qubits and classical bits. The library's own checks
  of register sizes and qubit indices are not modelled.
\<close>

record circuit =
  num_qubits :: int
  num_clbits :: int
  data :: "instr list"

definition QuantumCircuit :: "int \<Rightarrow> int \<Rightarrow> circuit" where
  \<comment> \<open>Modelled from the spec: a new circuit with no operations.\<close>
  "QuantumCircuit nq nc = \<lparr>num_qubits = nq, num_clbits = nc, data = []\<rparr>"

definition emit :: "instr \<Rightarrow> circuit \<Rightarrow> circuit" where
  \<comment> \<open>Modelled from the spec: every gate method adds its operation at the end of the sequence.\<close>
  "emit g circ = circ\<lparr>data := data circ @ [g]\<rparr>"

definition circ_swap :: "int \<Rightarrow> int \<Rightarrow> circuit \<Rightarrow> circuit" where
  \<comment> \<open>Modelled from the spec: \<^verbatim>\<open>circ_.swap(a, b)\<close>\<close>
  "circ_swap a b = emit (Swap a b)"

definition circ_cu1 :: "real \<Rightarrow> int \<Rightarrow> int \<Rightarrow> circuit \<Rightarrow> circuit" where
  \<comment> \<open>Modelled from the spec: \<^verbatim>\<open>circ_.cu1(theta, control, target)\<close>\<close>
  "circ_cu1 theta ctl tgt = emit (CU1 theta ctl tgt)"

definition circ_h :: "int \<Rightarrow> circuit \<Rightarrow> circuit" where
  \<comment> \<open>Modelled from the spec: \<^verbatim>\<open>circ_.h(q)\<close> on one qubit\<close>
  "circ_h q = emit (H q)"

definition circ_h_each :: "int list \<Rightarrow> circuit \<Rightarrow> circuit" where
  \<comment> \<open>Modelled from the spec: \<^verbatim>\<open>circ_.h(qs)\<close> on a range of qubits, one gate per qubit in order\<close>
  "circ_h_each qs = fold circ_h qs"

definition circ_x :: "int \<Rightarrow> circuit \<Rightarrow> circuit" where
  \<comment> \<open>Modelled from the spec: \<^verbatim>\<open>circ_.x(q)\<close>\<close>
  "circ_x q = emit (X q)"

definition circ_barrier :: "circuit \<Rightarrow> circuit" where
  \<comment> \<open>Modelled from the spec: \<^verbatim>\<open>circ.barrier()\<close>\<close>
  "circ_barrier = emit Barrier"

definition circ_measure_each :: "int list \<Rightarrow> int list \<Rightarrow> circuit \<Rightarrow> circuit" where
  \<comment> \<open>Modelled from the spec: \<^verbatim>\<open>circ.measure(qs, cs)\<close>, qubit by qubit into the matching bit\<close>
  "circ_measure_each qs cs = fold (\<lambda>(q, c). emit (Measure q c)) (zip qs cs)"

definition count_ops :: "(instr \<Rightarrow> bool) \<Rightarrow> circuit \<Rightarrow> nat" where
  "count_ops P circ = length (filter P (data circ))"

section \<open>The inverse quantum Fourier transform\<close>

text \<open>
  \<^verbatim>\<open>
  def qft_dagger(circ_, n_qubits):
      for qubit in range(int(n_qubits/2)):
          circ_.swap(qubit, n_qubits-qubit-1)
      for j in range(0,n_qubits):
          for m in range(j):
              circ_.cu1(-np.pi/float(2**(j-m)), m, j)
          circ_.h(j)
  \<close>
  The function mutates the circuit it is given and has no \<^verbatim>\<open>return\<close>: the model takes
  the circuit and gives Python's \<^verbatim>\<open>None\<close>, as \<^term>\<open>Inr ()\<close>, or the exception that ended
  the call, in both cases with the circuit as the call left it. Python evaluates the
  arguments of a call first: when \<^verbatim>\<open>float(2**(j-m))\<close> raises, that \<^verbatim>\<open>cu1\<close> is not added,
  and when \<^verbatim>\<open>n_qubits/2\<close> raises, nothing is. In the inner loop \<^verbatim>\<open>m < j\<close>, so the exponent
  \<^verbatim>\<open>j-m\<close> is positive and \<^verbatim>\<open>2**(j-m)\<close> is an integer power.
\<close>

fun qft_rotations :: "int \<Rightarrow> int list \<Rightarrow> circuit \<Rightarrow> (error + unit) \<times> circuit" where
  \<comment> \<open>the inner loop \<^verbatim>\<open>for m in ...\<close> at qubit \<open>j\<close>\<close>
  "qft_rotations j [] circ = (Inr (), circ)"
| "qft_rotations j (m # ms) circ =
     (case py_float (2 ^ nat (j - m)) of
        Inl e \<Rightarrow> (Inl e, circ)
      | Inr d \<Rightarrow> qft_rotations j ms (circ_cu1 (- np_pi / d) m j circ))"

fun qft_qubits :: "int list \<Rightarrow> circuit \<Rightarrow> (error + unit) \<times> circuit" where
  \<comment> \<open>the outer loop \<^verbatim>\<open>for j in ...\<close>\<close>
  "qft_qubits [] circ = (Inr (), circ)"
| "qft_qubits (j # js) circ =
     (case qft_rotations j (py_range j) circ of
        (Inl e, circ) \<Rightarrow> (Inl e, circ)
      | (Inr _, circ) \<Rightarrow> qft_qubits js (circ_h j circ))"

definition qft_dagger :: "circuit \<Rightarrow> int \<Rightarrow> (error + unit) \<times> circuit" where
  "qft_dagger circ n_qubits =
     (case py_truediv n_qubits 2 of
        Inl e \<Rightarrow> (Inl e, circ)
      | Inr half \<Rightarrow>
          (let circ = fold (\<lambda>qubit. circ_swap qubit (n_qubits - qubit - 1))
                        (py_range (py_int half)) circ
           in qft_qubits (py_range2 0 n_qubits) circ))"

section \<open>State preparation for phase estimation\<close>

text \<open>
  \<^verbatim>\<open>
  def qpe_pre(circ_, n_qubits):
      circ_.h(range(n_qubits))
      circ_.x(n_qubits)

      for x in reversed(range(n_qubits)):
          for _ in range(2**(n_qubits-1-x)):
              circ_.cu1(1, n_qubits-1-x, n_qubits)
  \<close>
  In the loop \<^verbatim>\<open>x <= n_qubits-1\<close>, so the exponent is never negative and the power is
  an integer. Nothing here can raise: the call always ends with \<^verbatim>\<open>None\<close>.
\<close>

definition qpe_pre :: "circuit \<Rightarrow> int \<Rightarrow> (error + unit) \<times> circuit" where
  "qpe_pre circ n_qubits =
     (let c1 = circ_h_each (py_range n_qubits) circ;
          c2 = circ_x n_qubits c1;
          c3 = fold (\<lambda>x c.
                  fold (\<lambda>_. circ_cu1 1 (n_qubits - 1 - x) n_qubits)
                    (py_range (2 ^ nat (n_qubits - 1 - x))) c)
                 (rev (py_range n_qubits)) c2
      in (Inr (), c3))"

section \<open>Running a job\<close>

text \<open>
  A counts table is a Python \<^verbatim>\<open>dict\<close> from bitstring to frequency. \<^verbatim>\<open>max\<close> walks it in
  insertion order, so it is an association list; its keys are distinct, and
  \<^verbatim>\<open>counts.get\<close> of a key is the frequency paired with it.
\<close>

type_synonym counts = "(string \<times> int) list"

text \<open>
  Modelled from the spec: \<^verbatim>\<open>execute\<close>, \<^verbatim>\<open>job_monitor\<close> and \<^verbatim>\<open>job.result().get_counts\<close>
  belong to the library. Together they submit a circuit to a backend with a shot count and
  an optimization level, block until the job completes, and hand back the frequency table
  of the outcomes; a failure of the backend reaches the caller. A backend is therefore the
  function from what is submitted to the table or the failure (\<^term>\<open>BackendError\<close>). The status lines
  that \<^verbatim>\<open>job_monitor\<close> prints are left out.
\<close>

type_synonym backend = "circuit \<Rightarrow> int \<Rightarrow> int \<Rightarrow> error + counts"

text \<open>
  What the notebook does to the world outside: the jobs it submits (circuit, shots,
  optimization level), the image files it saves (name and circuit drawn), and the lines it
  prints (the two values put into the line).
\<close>

record world =
  jobs :: "(circuit \<times> int \<times> int) list"
  files :: "(string \<times> circuit) list"
  stdout :: "(int \<times> real) list"

text \<open>
  \<^verbatim>\<open>
  def run_job(circ_, backend_, shots_=1000, optimization_level_=0):
      job = execute(circ_, backend=backend_, shots=shots_, optimization_level=optimization_level_)
      job_monitor(job)
      return job.result().get_counts(circ_)
  \<close>
  An argument the caller leaves out is \<^term>\<open>None\<close> and takes the default of the signature.
\<close>

definition run_job ::
  "circuit \<Rightarrow> backend \<Rightarrow> int option \<Rightarrow> int option \<Rightarrow> world \<Rightarrow> (error + counts) \<times> world" where
  "run_job circ backend shots optimization_level w =
     (let shots_val = (case shots of None \<Rightarrow> 1000 | Some s \<Rightarrow> s);
          level_val = (case optimization_level of None \<Rightarrow> 0 | Some l \<Rightarrow> l)
      in (backend circ shots_val level_val,
          w\<lparr>jobs := jobs w @ [(circ, shots_val, level_val)]\<rparr>))"

section \<open>Estimating from the counts\<close>

text \<open>
  \<^verbatim>\<open>max(counts, key=counts.get)\<close>: the first key, in the order of the table, whose
  frequency no other key exceeds; \<^verbatim>\<open>ValueError\<close> on an empty table.
\<close>

fun max_from :: "string \<times> int \<Rightarrow> counts \<Rightarrow> string \<times> int" where
  "max_from best [] = best"
| "max_from best (kv # rest) = max_from (if snd best < snd kv then kv else best) rest"

definition max_key :: "counts \<Rightarrow> error + string" where
  "max_key cnts = (case cnts of [] \<Rightarrow> Inl ValueError | kv # rest \<Rightarrow> Inr (fst (max_from kv rest)))"

text \<open>
  \<^verbatim>\<open>int(s, 2)\<close> on a key of a counts table, a string over the characters 0 and 1: its
  value in base 2, and \<^verbatim>\<open>ValueError\<close> on the empty string. Python's other literal forms
  (sign, prefix, underscores, blanks) are not keys of a counts table; the model rejects
  them.
\<close>

definition bit_of :: "char \<Rightarrow> int option" where
  "bit_of ch = (if ch = CHR ''0'' then Some 0 else if ch = CHR ''1'' then Some 1 else None)"

fun int_base2_from :: "int \<Rightarrow> string \<Rightarrow> error + int" where
  "int_base2_from acc [] = Inr acc"
| "int_base2_from acc (ch # s) =
     (case bit_of ch of None \<Rightarrow> Inl ValueError | Some b \<Rightarrow> int_base2_from (2 * acc + b) s)"

definition int_base2 :: "string \<Rightarrow> error + int" where
  "int_base2 s = (if s = [] then Inl ValueError else int_base2_from 0 s)"

text \<open>\<^verbatim>\<open>str(n)\<close> of an integer: its decimal digits, after a minus sign when negative.\<close>

definition digit_char :: "nat \<Rightarrow> char" where
  "digit_char d = ''0123456789'' ! d"

fun digits :: "nat \<Rightarrow> string" where
  "digits n = (if n < 10 then [digit_char n] else digits (n div 10) @ [digit_char (n mod 10)])"

definition py_str :: "int \<Rightarrow> string" where
  "py_str i = (if i < 0 then CHR ''-'' # digits (nat (- i)) else digits (nat i))"

definition savefig :: "string \<Rightarrow> circuit \<Rightarrow> world \<Rightarrow> world" where
  \<comment> \<open>Modelled from the spec: \<^verbatim>\<open>circ.draw(output='mpl').savefig(name)\<close> saves the drawing of the circuit under the name\<close>
  "savefig name circ w = w\<lparr>files := files w @ [(name, circ)]\<rparr>"

text \<open>
  \<^verbatim>\<open>
  def get_pi_estimate(n_qubits):
      circ = QuantumCircuit(n_qubits + 1, n_qubits)
      qpe_pre(circ, n_qubits)
      circ.barrier()
      qft_dagger(circ, n_qubits)
      circ.barrier()
      circ.measure(range(n_qubits), range(n_qubits))
      if n_qubits < 10:
          circ.draw(output='mpl').savefig(str(n_qubits)+'_qubit_circuit.png')
      counts = run_job(circ, backend_=simulator, shots_=10000, optimization_level_=0)
      max_counts_result = max(counts, key=counts.get)
      max_counts_result = int(max_counts_result, 2)
      theta = max_counts_result/2**n_qubits
      return (1./(2*theta))
  \<close>
  The builders change \<^verbatim>\<open>circ\<close> in place and their \<^verbatim>\<open>None\<close> is dropped, so the driver goes
  on with the circuit they leave. \<^verbatim>\<open>simulator\<close> is a global of the notebook, here the
  first argument. Every exception, also one of a builder, leaves the function at once,
  with the world as it is by then. A backend returns keys of \<^verbatim>\<open>n_qubits\<close> bits, so the
  quotient \<^verbatim>\<open>max_counts_result/2**n_qubits\<close> is below 1, far inside the range of floats: it
  is read as the exact number.
\<close>

definition theta_of :: "int \<Rightarrow> int \<Rightarrow> real" where
  \<comment> \<open>\<^verbatim>\<open>max_counts_result/2**n_qubits\<close>\<close>
  "theta_of max_counts_result n_qubits = real_of_int max_counts_result / (2 powi n_qubits)"

definition get_pi_estimate :: "backend \<Rightarrow> int \<Rightarrow> world \<Rightarrow> (error + real) \<times> world" where
  "get_pi_estimate simulator n_qubits w =
     (let circ = QuantumCircuit (n_qubits + 1) n_qubits
      in case qpe_pre circ n_qubits of
           (Inl e, circ) \<Rightarrow> (Inl e, w)
         | (Inr _, circ) \<Rightarrow>
      (let circ = circ_barrier circ
       in case qft_dagger circ n_qubits of
            (Inl e, circ) \<Rightarrow> (Inl e, w)
          | (Inr _, circ) \<Rightarrow>
      (let circ = circ_barrier circ;
           circ = circ_measure_each (py_range n_qubits) (py_range n_qubits) circ;
           w = (if n_qubits < 10
                then savefig (py_str n_qubits @ ''_qubit_circuit.png'') circ w
                else w)
       in case run_job circ simulator (Some 10000) (Some 0) w of
            (Inl e, w) \<Rightarrow> (Inl e, w)
          | (Inr cnts, w) \<Rightarrow>
              (case max_key cnts of
                 Inl e \<Rightarrow> (Inl e, w)
               | Inr max_counts_result \<Rightarrow>
                   (case int_base2 max_counts_result of
                      Inl e \<Rightarrow> (Inl e, w)
                    | Inr max_counts_result \<Rightarrow>
                        (let theta = theta_of max_counts_result n_qubits
                         in if 2 * theta = 0 then (Inl ZeroDivisionError, w)
                            else (Inr (1 / (2 * theta)), w)))))))"

section \<open>The sweep over qubit counts\<close>

text \<open>
  \<^verbatim>\<open>
  nqs = list(range(2,12+1))
  pi_estimates = []
  for nq in nqs:
      thisnq_pi_estimate = get_pi_estimate(nq)
      pi_estimates.append(thisnq_pi_estimate)
      print(f"{nq} qubits, pi \<approx> {thisnq_pi_estimate}")
  \<close>
  The cell has no handler: an exception of a call ends the loop, and \<^verbatim>\<open>pi_estimates\<close>
  keeps what it has by then.
\<close>

definition print_line :: "int \<times> real \<Rightarrow> world \<Rightarrow> world" where
  "print_line line w = w\<lparr>stdout := stdout w @ [line]\<rparr>"

fun sweep_loop ::
  "backend \<Rightarrow> int list \<Rightarrow> real list \<Rightarrow> world \<Rightarrow> error option \<times> real list \<times> world" where
  "sweep_loop simulator [] pi_estimates w = (None, pi_estimates, w)"
| "sweep_loop simulator (nq # nqs) pi_estimates w =
     (case get_pi_estimate simulator nq w of
        (Inl e, w') \<Rightarrow> (Some e, pi_estimates, w')
      | (Inr thisnq_pi_estimate, w') \<Rightarrow>
          sweep_loop simulator nqs (pi_estimates @ [thisnq_pi_estimate])
            (print_line (nq, thisnq_pi_estimate) w'))"

definition sweep :: "backend \<Rightarrow> world \<Rightarrow> error option \<times> real list \<times> world" where
  "sweep simulator w = sweep_loop simulator (py_range2 2 (12 + 1)) [] w"

section \<open>Notions used to state the properties\<close>

text \<open>
  The circuit \<^verbatim>\<open>get_pi_estimate\<close> has built when it reaches \<^verbatim>\<open>run_job\<close>: the same calls, in
  the same order, each builder leaving its circuit.
\<close>

definition pi_circuit :: "int \<Rightarrow> circuit" where
  "pi_circuit n =
     circ_measure_each (py_range n) (py_range n)
       (circ_barrier (snd (qft_dagger
          (circ_barrier (snd (qpe_pre (QuantumCircuit (n + 1) n) n))) n)))"

text \<open>A string over the characters 0 and 1, and the integer it denotes in base 2, first
  character most significant.\<close>

definition is_bitstring :: "string \<Rightarrow> bool" where
  "is_bitstring s = list_all (\<lambda>ch. ch = CHR ''0'' \<or> ch = CHR ''1'') s"

fun bits_value :: "string \<Rightarrow> int" where
  "bits_value [] = 0"
| "bits_value (ch # s) = (if ch = CHR ''1'' then 2 ^ length s else 0) + bits_value s"

text \<open>A backend that answers every job with one and the same table, and a world in which
  nothing has happened yet: the concrete inputs of the examples below.\<close>

definition fixed_backend :: "counts \<Rightarrow> backend" where
  "fixed_backend cnts circ shots level = Inr cnts"

definition empty_world :: world where
  "empty_world = \<lparr>jobs = [], files = [], stdout = []\<rparr>"

text \<open>
  The run recorded in the notebook printed the estimates 2.0, 4.0, 2.66..., 3.2, 3.2, 3.2,
  3.12..., 3.16..., 3.14..., 3.14..., 3.14... for 2 to 12 qubits: the most frequent outcomes
  were 1, 1, 3, 5, 10, 20, 41, 81, 163, 326 and 652. A backend that answers a circuit of
  \<open>n\<close> classical bits with that outcome in all its shots:
\<close>

definition recorded_mode :: "int \<Rightarrow> string" where
  "recorded_mode n =
     (if n = 2 then ''01'' else if n = 3 then ''001'' else if n = 4 then ''0011''
      else if n = 5 then ''00101'' else if n = 6 then ''001010''
      else if n = 7 then ''0010100'' else if n = 8 then ''00101001''
      else if n = 9 then ''001010001'' else if n = 10 then ''0010100011''
      else if n = 11 then ''00101000110'' else ''001010001100'')"

definition recorded_backend :: backend where
  "recorded_backend circ shots level = Inr [(recorded_mode (num_clbits circ), shots)]"

text \<open>The same backend, except that a circuit of three classical bits comes back with the
  all-zero outcome in all its shots.\<close>

definition stuck_backend :: backend where
  "stuck_backend circ shots level =
     (if num_clbits circ = 3 then Inr [(''000'', shots)] else recorded_backend circ shots level)"

section \<open>Ranges and the range of floats\<close>

lemma data_emit: "data (emit g c) = data c @ [g]"
  by (simp add: emit_def)

lemma fold_emit_data:
  "data (fold (\<lambda>a. emit (f a)) as c) = data c @ map f as"
  by (induction as arbitrary: c) (simp_all add: data_emit)

lemma fold_emit_qubits:
  "num_qubits (fold (\<lambda>a. emit (f a)) as c) = num_qubits c"
  by (induction as arbitrary: c) (simp_all add: emit_def)

lemma fold_emit_clbits:
  "num_clbits (fold (\<lambda>a. emit (f a)) as c) = num_clbits c"
  by (induction as arbitrary: c) (simp_all add: emit_def)

lemma py_range_Suc: "py_range (int (Suc k)) = py_range (int k) @ [int k]"
proof -
  have "nat (int (Suc k)) = Suc k" by (rule nat_int)
  then show ?thesis unfolding py_range_def by simp
qed

lemma py_range_nonpos: "k \<le> 0 \<Longrightarrow> py_range k = []"
  by (simp add: py_range_def)

lemma length_py_range: "length (py_range k) = nat k"
  by (simp add: py_range_def)

lemma in_py_range: "m \<in> set (py_range k) \<longleftrightarrow> 0 \<le> m \<and> m < k"
proof
  assume "m \<in> set (py_range k)"
  then obtain i where "i < nat k" and "m = int i"
    by (auto simp add: py_range_def)
  then show "0 \<le> m \<and> m < k" by auto
next
  assume a: "0 \<le> m \<and> m < k"
  then have "nat m < nat k" and "m = int (nat m)" by auto
  then show "m \<in> set (py_range k)"
    unfolding py_range_def by (metis atLeast0LessThan imageI lessThan_iff set_map set_upt)
qed

lemma py_range2_zero: "py_range2 0 n = py_range n"
  by (simp add: py_range2_def py_range_def)

lemma py_int_half: "py_range (py_int (real_of_int n / 2)) = py_range (n div 2)"
proof (cases "0 \<le> n")
  case True
  have "\<lfloor>real_of_int n / real_of_int 2\<rfloor> = n div 2"
    by (rule floor_divide_of_int_eq)
  with True show ?thesis by (simp add: py_int_def)
next
  case False
  then have "real_of_int n / 2 < 0" by simp
  then have "\<lceil>real_of_int n / 2\<rceil> \<le> 0" by (simp add: ceiling_le_iff)
  moreover from False have "n div 2 \<le> 0" by simp
  ultimately show ?thesis using False
    by (simp add: py_int_def py_range_nonpos)
qed

lemma float_bound_above: "(2::real) ^ 1023 < 2 ^ 1024 - 2 ^ 970"
proof -
  have "(2::real) ^ 970 < 2 ^ 1023"
    by (rule power_strict_increasing) simp_all
  moreover have "(2::real) ^ 1024 = 2 ^ 1023 + 2 ^ 1023"
    using power_Suc [of "2::real" 1023] by (simp del: power_Suc)
  ultimately show ?thesis by linarith
qed

lemma no_overflow_below: "\<bar>v\<bar> \<le> 2 ^ 1023 \<Longrightarrow> \<not> float_overflow v"
  using float_bound_above by (simp add: float_overflow_def)

lemma overflow_above: "2 ^ 1024 \<le> \<bar>v\<bar> \<Longrightarrow> float_overflow v"
  by (simp add: float_overflow_def)

lemma py_float_power_ok:
  assumes "k \<le> 1023"
  shows "py_float (2 ^ k) = Inr (2 ^ k)"
proof -
  have "(2::real) ^ k \<le> 2 ^ 1023"
    using assms by (intro power_increasing) simp_all
  then have "\<not> float_overflow (real_of_int (2 ^ k))"
    by (intro no_overflow_below) simp
  then show ?thesis by (simp add: py_float_def)
qed

lemma py_float_power_raises:
  assumes "1024 \<le> k"
  shows "py_float (2 ^ k) = Inl OverflowError"
proof -
  have "(2::real) ^ 1024 \<le> 2 ^ k"
    using assms by (intro power_increasing) simp_all
  then have "float_overflow (real_of_int (2 ^ k))"
    by (intro overflow_above) simp
  then show ?thesis by (simp add: py_float_def)
qed

lemma py_truediv_half_ok:
  assumes "0 \<le> n" and "n \<le> 1024"
  shows "py_truediv n 2 = Inr (real_of_int n / 2)"
proof -
  have "\<bar>real_of_int n / 2\<bar> \<le> 1024"
    using assms by simp
  also have "(1024::real) \<le> 2 ^ 1023"
  proof -
    have "(2::real) ^ 10 \<le> 2 ^ 1023" by (rule power_increasing) simp_all
    then show ?thesis by simp
  qed
  finally have "\<not> float_overflow (real_of_int n / 2)"
    by (rule no_overflow_below)
  then show ?thesis by (simp add: py_truediv_def)
qed

section \<open>The inverse transform: where it returns and where it raises\<close>

lemma qft_rotations_ok:
  assumes "\<forall>m\<in>set ms. 0 \<le> m \<and> j - m \<le> 1023"
  shows "qft_rotations j ms c =
           (Inr (), fold (\<lambda>m. emit (CU1 (- np_pi / real_of_int (2 ^ nat (j - m))) m j)) ms c)"
  using assms
proof (induction ms arbitrary: c)
  case Nil
  show ?case by simp
next
  case (Cons m ms)
  then have "j - m \<le> 1023" by simp
  then have "nat (j - m) \<le> 1023" by linarith
  then have "py_float (2 ^ nat (j - m)) = Inr (2 ^ nat (j - m))"
    by (rule py_float_power_ok)
  moreover have "\<forall>m\<in>set ms. 0 \<le> m \<and> j - m \<le> 1023" using Cons.prems by simp
  ultimately show ?case using Cons.IH by (simp add: circ_cu1_def)
qed

lemma qft_rotations_range_ok:
  assumes "j \<le> 1023"
  shows "qft_rotations j (py_range j) c =
           (Inr (), fold (\<lambda>m. emit (CU1 (- np_pi / real_of_int (2 ^ nat (j - m))) m j)) (py_range j) c)"
proof (rule qft_rotations_ok)
  show "\<forall>m\<in>set (py_range j). 0 \<le> m \<and> j - m \<le> 1023"
    using assms by (auto simp add: in_py_range)
qed

lemma qft_rotations_range_raises:
  assumes "1024 \<le> j"
  shows "qft_rotations j (py_range j) c = (Inl OverflowError, c)"
proof -
  obtain k where k: "j = int (Suc k)"
    using assms by (metis Suc_pred' nat_0_le nat_eq_iff2 zero_less_nat_eq not_numeral_le_zero order_trans linorder_not_le zero_le)
  have front: "py_range j = 0 # map (\<lambda>q. q + 1) (py_range (int k))"
  proof -
    have "nat (int (Suc k)) = Suc k" by (rule nat_int)
    moreover have "[0..<Suc k] = 0 # map Suc [0..<k]"
      by (simp add: upt_conv_Cons map_Suc_upt del: upt_Suc)
    ultimately show ?thesis unfolding py_range_def k by (simp add: comp_def del: upt_Suc)
  qed
  have "1024 \<le> nat (j - 0)" using assms by simp
  then have "py_float (2 ^ nat (j - 0)) = Inl OverflowError"
    by (rule py_float_power_raises)
  then show ?thesis unfolding front by simp
qed

lemma qft_rotations_frame:
  "\<exists>added. data (snd (qft_rotations j ms c)) = data c @ added \<and> list_all is_CU1 added
     \<and> num_qubits (snd (qft_rotations j ms c)) = num_qubits c
     \<and> num_clbits (snd (qft_rotations j ms c)) = num_clbits c"
proof (induction ms arbitrary: c)
  case Nil
  show ?case by simp
next
  case (Cons m ms)
  show ?case
  proof (cases "py_float (2 ^ nat (j - m))")
    case (Inl e)
    then show ?thesis by simp
  next
    case (Inr d)
    let ?c1 = "circ_cu1 (- np_pi / d) m j c"
    from Cons.IH [of ?c1] obtain added where
      a: "data (snd (qft_rotations j ms ?c1)) = data ?c1 @ added" "list_all is_CU1 added"
         "num_qubits (snd (qft_rotations j ms ?c1)) = num_qubits ?c1"
         "num_clbits (snd (qft_rotations j ms ?c1)) = num_clbits ?c1"
      by blast
    have "data (snd (qft_rotations j (m # ms) c)) = data c @ (CU1 (- np_pi / d) m j # added)"
      using a(1) Inr by (simp add: circ_cu1_def emit_def)
    moreover have "list_all is_CU1 (CU1 (- np_pi / d) m j # added)" using a(2) by simp
    moreover have "num_qubits (snd (qft_rotations j (m # ms) c)) = num_qubits c"
      using a(3) Inr by (simp add: circ_cu1_def emit_def)
    moreover have "num_clbits (snd (qft_rotations j (m # ms) c)) = num_clbits c"
      using a(4) Inr by (simp add: circ_cu1_def emit_def)
    ultimately show ?thesis by blast
  qed
qed

lemma qft_qubits_ok:
  assumes "\<forall>j\<in>set js. j \<le> 1023"
  shows "qft_qubits js c =
           (Inr (), fold (\<lambda>j c. emit (H j)
                      (fold (\<lambda>m. emit (CU1 (- np_pi / real_of_int (2 ^ nat (j - m))) m j)) (py_range j) c))
                    js c)"
  using assms
proof (induction js arbitrary: c)
  case Nil
  show ?case by simp
next
  case (Cons j js)
  then have "j \<le> 1023" and rest: "\<forall>j\<in>set js. j \<le> 1023" by simp_all
  then show ?case
    using Cons.IH [OF rest] by (simp add: qft_rotations_range_ok circ_h_def)
qed

lemma qft_qubits_raises:
  assumes "1024 \<le> j"
  shows "qft_qubits (j # js) c = (Inl OverflowError, c)"
  using qft_rotations_range_raises [OF assms] by simp

lemma qft_qubits_append:
  "qft_qubits (js1 @ js2) c =
     (case qft_qubits js1 c of (Inl e, c') \<Rightarrow> (Inl e, c') | (Inr u, c') \<Rightarrow> qft_qubits js2 c')"
proof (induction js1 arbitrary: c)
  case Nil
  show ?case by simp
next
  case (Cons j js1)
  show ?case
    by (cases "qft_rotations j (py_range j) c") (auto simp add: Cons.IH split: sum.splits)
qed

lemma cu1_is_gate: "is_CU1 g \<Longrightarrow> \<not> is_Barrier g \<and> \<not> is_Measure g"
  by (cases g) simp_all

lemma qft_qubits_frame:
  "\<exists>added. data (snd (qft_qubits js c)) = data c @ added
     \<and> list_all (\<lambda>g. \<not> is_Barrier g \<and> \<not> is_Measure g) added
     \<and> num_qubits (snd (qft_qubits js c)) = num_qubits c
     \<and> num_clbits (snd (qft_qubits js c)) = num_clbits c"
proof (induction js arbitrary: c)
  case Nil
  show ?case by simp
next
  case (Cons j js)
  from qft_rotations_frame [of j "py_range j" c] obtain rots where
    r: "data (snd (qft_rotations j (py_range j) c)) = data c @ rots" "list_all is_CU1 rots"
       "num_qubits (snd (qft_rotations j (py_range j) c)) = num_qubits c"
       "num_clbits (snd (qft_rotations j (py_range j) c)) = num_clbits c"
    by blast
  have rg: "list_all (\<lambda>g. \<not> is_Barrier g \<and> \<not> is_Measure g) rots"
    using r(2) cu1_is_gate by (auto simp add: list_all_iff)
  obtain res c1 where q: "qft_rotations j (py_range j) c = (res, c1)" by (cases "qft_rotations j (py_range j) c")
  show ?case
  proof (cases res)
    case (Inl e)
    then show ?thesis using q r rg by auto
  next
    case (Inr u)
    let ?c2 = "circ_h j c1"
    from Cons.IH [of ?c2] obtain added where
      a: "data (snd (qft_qubits js ?c2)) = data ?c2 @ added"
         "list_all (\<lambda>g. \<not> is_Barrier g \<and> \<not> is_Measure g) added"
         "num_qubits (snd (qft_qubits js ?c2)) = num_qubits ?c2"
         "num_clbits (snd (qft_qubits js ?c2)) = num_clbits ?c2"
      by blast
    have "data (snd (qft_qubits (j # js) c)) = data c @ (rots @ H j # added)"
      using a(1) q Inr r(1) by (simp add: circ_h_def emit_def)
    moreover have "list_all (\<lambda>g. \<not> is_Barrier g \<and> \<not> is_Measure g) (rots @ H j # added)"
      using rg a(2) by simp
    moreover have "num_qubits (snd (qft_qubits (j # js) c)) = num_qubits c"
      using a(3) q Inr r(3) by (simp add: circ_h_def emit_def)
    moreover have "num_clbits (snd (qft_qubits (j # js) c)) = num_clbits c"
      using a(4) q Inr r(4) by (simp add: circ_h_def emit_def)
    ultimately show ?thesis by blast
  qed
qed

lemma fold_block_data:
  "data (fold (\<lambda>j c. emit (g j) (fold (\<lambda>m. emit (f j m)) (ms j) c)) js c0)
     = data c0 @ concat (map (\<lambda>j. map (f j) (ms j) @ [g j]) js)"
  by (induction js arbitrary: c0) (simp_all add: data_emit fold_emit_data)

lemma count_cu1_row:
  "length (filter is_CU1 (map (\<lambda>m. CU1 (a m) m j) ms @ [H j])) = length ms"
  by (induction ms) simp_all

lemma count_h_row:
  "length (filter is_H (map (\<lambda>m. CU1 (a m) m j) ms @ [H j])) = 1"
  by (induction ms) simp_all

lemma count_swap_row:
  "filter is_Swap (map (\<lambda>m. CU1 (a m) m j) ms @ [H j]) = []"
  by (induction ms) simp_all

lemma count_cu1_rows:
  "int (length (filter is_CU1 (concat (map (\<lambda>j. map (\<lambda>m. CU1 (a j m) m j) (py_range j) @ [H j])
      (py_range (int k)))))) = int k * (int k - 1) div 2"
proof (induction k)
  case 0
  show ?case by (simp add: py_range_def)
next
  case (Suc k)
  have "int k * (int k - 1) div 2 + int k = (int k * (int k - 1) + 2 * int k) div 2"
    by simp
  also have "int k * (int k - 1) + 2 * int k = int (Suc k) * (int (Suc k) - 1)"
    by (simp add: algebra_simps)
  finally have ar: "int k * (int k - 1) div 2 + int k = int (Suc k) * (int (Suc k) - 1) div 2" .
  show ?case
    unfolding py_range_Suc map_append concat_append filter_append length_append
    using Suc.IH ar by (simp add: count_cu1_row length_py_range del: of_nat_Suc)
qed

lemma count_h_rows:
  "length (filter is_H (concat (map (\<lambda>j. map (\<lambda>m. CU1 (a j m) m j) (py_range j) @ [H j])
      (py_range (int k))))) = k"
proof (induction k)
  case 0
  show ?case by (simp add: py_range_def)
next
  case (Suc k)
  show ?case
    unfolding py_range_Suc map_append concat_append filter_append length_append
    using Suc.IH by (simp add: count_h_row del: of_nat_Suc)
qed

lemma count_swap_rows:
  "filter is_Swap (concat (map (\<lambda>j. map (\<lambda>m. CU1 (a j m) m j) (py_range j) @ [H j]) js)) = []"
  by (induction js) (simp_all add: count_swap_row)

lemma filter_swaps:
  "filter is_CU1 (map (\<lambda>q. Swap q (b q)) qs) = []"
  "filter is_H (map (\<lambda>q. Swap q (b q)) qs) = []"
  "length (filter is_Swap (map (\<lambda>q. Swap q (b q)) qs)) = length qs"
  by (induction qs) simp_all

lemma qft_dagger_ok:
  assumes "0 \<le> n" and "n \<le> 1024"
  shows "qft_dagger c n =
    (Inr (),
     fold (\<lambda>j c. emit (H j)
            (fold (\<lambda>m. emit (CU1 (- np_pi / real_of_int (2 ^ nat (j - m))) m j)) (py_range j) c))
       (py_range n)
       (fold (\<lambda>qubit. emit (Swap qubit (n - qubit - 1))) (py_range (n div 2)) c))"
proof -
  have "\<forall>j\<in>set (py_range n). j \<le> 1023"
    using assms by (auto simp add: in_py_range)
  then show ?thesis
    by (simp add: qft_dagger_def py_truediv_half_ok [OF assms] py_int_half py_range2_zero
        qft_qubits_ok circ_swap_def)
qed

lemma qft_dagger_data:
  assumes "0 \<le> n" and "n \<le> 1024"
  shows "data (snd (qft_dagger c n)) =
     data c @ map (\<lambda>q. Swap q (n - q - 1)) (py_range (n div 2))
      @ concat (map (\<lambda>j. map (\<lambda>m. CU1 (- np_pi / real_of_int (2 ^ nat (j - m))) m j) (py_range j) @ [H j])
                 (py_range n))"
  by (simp add: qft_dagger_ok [OF assms] fold_block_data fold_emit_data)

lemma py_range2_front:
  assumes "a < b"
  shows "py_range2 a b = a # py_range2 (a + 1) b"
proof -
  have 1: "nat (b - a) = Suc (nat (b - (a + 1)))"
    using assms by simp
  have 2: "[0..<Suc k] = 0 # map Suc [0..<k]" for k
    by (simp add: upt_conv_Cons map_Suc_upt del: upt_Suc)
  show ?thesis
    unfolding py_range2_def 1 2 by (simp add: comp_def algebra_simps)
qed

lemma py_range2_empty: "b \<le> a \<Longrightarrow> py_range2 a b = []"
  by (simp add: py_range2_def)

lemma py_range2_split_aux:
  "nat (m - a) = k \<Longrightarrow> a \<le> m \<Longrightarrow> m < b
     \<Longrightarrow> py_range2 a b = py_range2 a m @ m # py_range2 (m + 1) b"
proof (induction k arbitrary: a)
  case 0
  then have "a = m" by simp
  then show ?case using 0 by (simp add: py_range2_front py_range2_empty)
next
  case (Suc k)
  then have lt: "a < m" and k: "nat (m - (a + 1)) = k" by simp_all
  have "py_range2 (a + 1) b = py_range2 (a + 1) m @ m # py_range2 (m + 1) b"
    using Suc.IH [OF k] lt Suc.prems by simp
  moreover have "py_range2 a b = a # py_range2 (a + 1) b"
    using lt Suc.prems by (simp add: py_range2_front)
  moreover have "py_range2 a m = a # py_range2 (a + 1) m"
    using lt by (simp add: py_range2_front)
  ultimately show ?case by simp
qed

lemma py_range2_split:
  assumes "a \<le> m" and "m < b"
  shows "py_range2 a b = py_range2 a m @ m # py_range2 (m + 1) b"
  using py_range2_split_aux [OF refl assms] .

lemma length_py_range2: "length (py_range2 a b) = nat (b - a)"
  by (simp add: py_range2_def)

text \<open>From 1025 qubits on the call raises: at the latest when qubit 1024 is reached.\<close>

lemma qft_qubits_stops:
  assumes "1025 \<le> n"
  shows "qft_qubits (py_range2 0 n) c =
    (Inl OverflowError,
     fold (\<lambda>j c. emit (H j)
            (fold (\<lambda>m. emit (CU1 (- np_pi / real_of_int (2 ^ nat (j - m))) m j)) (py_range j) c))
       (py_range 1024) c)"
proof -
  have split: "py_range2 0 n = py_range 1024 @ 1024 # py_range2 (1024 + 1) n"
    using py_range2_split [of 0 1024 n] assms by (simp add: py_range2_zero)
  have "\<forall>j\<in>set (py_range 1024). j \<le> 1023"
    by (auto simp add: in_py_range)
  moreover have "qft_rotations 1024 (py_range 1024) c' = (Inl OverflowError, c')" for c'
    by (rule qft_rotations_range_raises) simp
  ultimately show ?thesis
    unfolding split qft_qubits_append
    by (simp add: qft_qubits_ok)
qed

lemma qft_dagger_raises:
  assumes "1025 \<le> n"
  shows "fst (qft_dagger c n) = Inl OverflowError"
proof (cases "float_overflow (real_of_int n / 2)")
  case True
  then show ?thesis by (simp add: qft_dagger_def py_truediv_def)
next
  case False
  then show ?thesis
    by (simp add: qft_dagger_def py_truediv_def qft_qubits_stops [OF assms])
qed

lemma qft_dagger_frame:
  "\<exists>added. data (snd (qft_dagger c n)) = data c @ added
     \<and> list_all (\<lambda>g. \<not> is_Barrier g \<and> \<not> is_Measure g) added
     \<and> num_qubits (snd (qft_dagger c n)) = num_qubits c
     \<and> num_clbits (snd (qft_dagger c n)) = num_clbits c"
proof (cases "py_truediv n 2")
  case (Inl e)
  then show ?thesis by (simp add: qft_dagger_def)
next
  case (Inr half)
  let ?c1 = "fold (\<lambda>qubit. emit (Swap qubit (n - qubit - 1))) (py_range (py_int half)) c"
  from qft_qubits_frame [of "py_range2 0 n" ?c1] obtain added where
    a: "data (snd (qft_qubits (py_range2 0 n) ?c1)) = data ?c1 @ added"
       "list_all (\<lambda>g. \<not> is_Barrier g \<and> \<not> is_Measure g) added"
       "num_qubits (snd (qft_qubits (py_range2 0 n) ?c1)) = num_qubits ?c1"
       "num_clbits (snd (qft_qubits (py_range2 0 n) ?c1)) = num_clbits ?c1"
    by blast
  let ?swaps = "map (\<lambda>qubit. Swap qubit (n - qubit - 1)) (py_range (py_int half))"
  have "data (snd (qft_dagger c n)) = data c @ (?swaps @ added)"
    using a(1) Inr by (simp add: qft_dagger_def circ_swap_def fold_emit_data)
  moreover have "list_all (\<lambda>g. \<not> is_Barrier g \<and> \<not> is_Measure g) (?swaps @ added)"
    using a(2) by (auto simp add: list_all_iff)
  moreover have "num_qubits (snd (qft_dagger c n)) = num_qubits c"
    using a(3) Inr by (simp add: qft_dagger_def circ_swap_def fold_emit_qubits)
  moreover have "num_clbits (snd (qft_dagger c n)) = num_clbits c"
    using a(4) Inr by (simp add: qft_dagger_def circ_swap_def fold_emit_clbits)
  ultimately show ?thesis by blast
qed

lemma qft_dagger_registers:
  "num_qubits (snd (qft_dagger c n)) = num_qubits c"
  "num_clbits (snd (qft_dagger c n)) = num_clbits c"
  using qft_dagger_frame [of c n] by auto

lemma qft_dagger_1025:
  "qft_dagger c 1025 =
    (Inl OverflowError,
     fold (\<lambda>j c. emit (H j)
            (fold (\<lambda>m. emit (CU1 (- np_pi / real_of_int (2 ^ nat (j - m))) m j)) (py_range j) c))
       (py_range 1024)
       (fold (\<lambda>qubit. emit (Swap qubit (1025 - qubit - 1))) (py_range 512) c))"
proof -
  have "\<bar>real_of_int 1025 / 2\<bar> \<le> 1025" by simp
  also have "(1025::real) \<le> 2 ^ 1023"
  proof -
    have "(2::real) ^ 11 \<le> 2 ^ 1023" by (rule power_increasing) simp_all
    then show ?thesis by simp
  qed
  finally have "\<not> float_overflow (real_of_int 1025 / 2)"
    by (rule no_overflow_below)
  then have half: "py_truediv 1025 2 = Inr (real_of_int 1025 / 2)"
    by (simp add: py_truediv_def)
  have "py_range (py_int (real_of_int 1025 / 2)) = py_range (1025 div 2)"
    by (rule py_int_half)
  then have swaps: "py_range (py_int (real_of_int 1025 / 2)) = py_range 512" by simp
  show ?thesis
    unfolding qft_dagger_def half
    using swaps qft_qubits_stops [of 1025] by (simp add: circ_swap_def)
qed

text \<open>
  Claim C1, as amended. For a qubit count \<open>0 \<le> n \<le> 1024\<close>, \<^verbatim>\<open>qft_dagger\<close> returns, having added
  to the circuit it is given exactly \<open>n (n - 1) / 2\<close> controlled-phase operations, exactly
  \<open>n\<close> Hadamard operations and exactly \<open>floor (n / 2)\<close> swap operations.
\<close>

theorem qft_dagger_gate_counts:
  assumes "0 \<le> n" and "n \<le> 1024"
  shows "fst (qft_dagger c n) = Inr ()
       \<and> int (count_ops is_CU1 (snd (qft_dagger c n))) = int (count_ops is_CU1 c) + n * (n - 1) div 2
       \<and> int (count_ops is_H (snd (qft_dagger c n))) = int (count_ops is_H c) + n
       \<and> int (count_ops is_Swap (snd (qft_dagger c n))) = int (count_ops is_Swap c) + n div 2"
proof -
  obtain k where k: "n = int k"
    using assms(1) nonneg_int_cases by blast
  have half: "0 \<le> n div 2" using assms(1) by simp
  note d = qft_dagger_data [OF assms]
  have "fst (qft_dagger c n) = Inr ()"
    by (simp add: qft_dagger_ok [OF assms])
  moreover have "int (count_ops is_CU1 (snd (qft_dagger c n))) = int (count_ops is_CU1 c) + n * (n - 1) div 2"
    unfolding count_ops_def d unfolding filter_append length_append k
    using count_cu1_rows [of _ k] by (simp add: filter_swaps)
  moreover have "int (count_ops is_H (snd (qft_dagger c n))) = int (count_ops is_H c) + n"
    unfolding count_ops_def d unfolding filter_append length_append k
    by (simp add: filter_swaps count_h_rows)
  moreover have "int (count_ops is_Swap (snd (qft_dagger c n))) = int (count_ops is_Swap c) + n div 2"
    unfolding count_ops_def d unfolding filter_append length_append
    using half by (simp add: filter_swaps count_swap_rows length_py_range)
  ultimately show ?thesis by simp
qed

theorem qft_dagger_gate_counts_witness:
  "(0::int) \<le> 3 \<and> (3::int) \<le> 1024
   \<and> fst (qft_dagger (QuantumCircuit 4 3) 3) = Inr ()
   \<and> count_ops is_CU1 (snd (qft_dagger (QuantumCircuit 4 3) 3)) = 3
   \<and> count_ops is_H (snd (qft_dagger (QuantumCircuit 4 3) 3)) = 3
   \<and> count_ops is_Swap (snd (qft_dagger (QuantumCircuit 4 3) 3)) = 1"
  using qft_dagger_gate_counts [of 3 "QuantumCircuit 4 3"]
  by (simp add: count_ops_def QuantumCircuit_def)

lemma qft_dagger_1025_data:
  "data (snd (qft_dagger c 1025)) =
     data c @ map (\<lambda>q. Swap q (1025 - q - 1)) (py_range 512)
      @ concat (map (\<lambda>j. map (\<lambda>m. CU1 (- np_pi / real_of_int (2 ^ nat (j - m))) m j) (py_range j) @ [H j])
                 (py_range 1024))"
  by (simp add: qft_dagger_1025 fold_block_data fold_emit_data)

text \<open>
  Claim C1 as stated, for every \<open>n \<ge> 0\<close>, fails at \<open>n = 1025\<close>: \<^verbatim>\<open>float(2**1024)\<close> raises
  when qubit 1024 is reached, and the circuit is left with 523776 controlled-phase
  operations and 1024 Hadamard operations instead of 524800 and 1025.
\<close>

theorem qft_dagger_gate_counts_counterexample:
  "fst (qft_dagger (QuantumCircuit 1026 1025) 1025) = Inl OverflowError
   \<and> int (count_ops is_CU1 (snd (qft_dagger (QuantumCircuit 1026 1025) 1025))) = 523776
   \<and> int (count_ops is_H (snd (qft_dagger (QuantumCircuit 1026 1025) 1025))) = 1024
   \<and> (1025::int) * (1025 - 1) div 2 = 524800"
proof -
  have "int (count_ops is_CU1 (snd (qft_dagger (QuantumCircuit 1026 1025) 1025))) = 523776"
    unfolding count_ops_def qft_dagger_1025_data filter_append length_append
    using count_cu1_rows [of _ 1024] by (simp add: filter_swaps QuantumCircuit_def)
  moreover have "int (count_ops is_H (snd (qft_dagger (QuantumCircuit 1026 1025) 1025))) = 1024"
    unfolding count_ops_def qft_dagger_1025_data filter_append length_append
    using count_h_rows [of _ 1024] by (simp add: filter_swaps QuantumCircuit_def)
  ultimately show ?thesis by (simp add: qft_dagger_1025)
qed

text \<open>
  Claim C2, as amended. For a qubit count \<open>0 \<le> n \<le> 1024\<close>, \<^verbatim>\<open>qft_dagger\<close> returns, and the
  operations it has added come in this order: first the swap of qubit \<open>q\<close> with qubit
  \<open>n - 1 - q\<close> for each \<open>q < floor (n / 2)\<close>; then, for each qubit \<open>j\<close> from \<open>0\<close> to \<open>n - 1\<close> in
  increasing order, one controlled-phase rotation of angle \<open>- pi / 2 ^ (j - m)\<close> controlled
  on each earlier qubit \<open>m < j\<close>, followed by a Hadamard gate on qubit \<open>j\<close>.
\<close>

theorem qft_dagger_order:
  assumes "0 \<le> n" and "n \<le> 1024"
  shows "fst (qft_dagger c n) = Inr ()
       \<and> data (snd (qft_dagger c n)) =
           data c
           @ map (\<lambda>q. Swap q (n - 1 - q)) (py_range (n div 2))
           @ concat (map (\<lambda>j. map (\<lambda>m. CU1 (- pi / 2 ^ nat (j - m)) m j) (py_range j) @ [H j])
                      (py_range n))"
proof -
  have "(\<lambda>q. Swap q (n - q - 1)) = (\<lambda>q. Swap q (n - 1 - q))"
    by (simp add: algebra_simps)
  then have "data (snd (qft_dagger c n)) =
           data c
           @ map (\<lambda>q. Swap q (n - 1 - q)) (py_range (n div 2))
           @ concat (map (\<lambda>j. map (\<lambda>m. CU1 (- pi / 2 ^ nat (j - m)) m j) (py_range j) @ [H j])
                      (py_range n))"
    by (simp add: qft_dagger_data [OF assms] np_pi_def)
  moreover have "fst (qft_dagger c n) = Inr ()"
    by (simp add: qft_dagger_ok [OF assms])
  ultimately show ?thesis by blast
qed

theorem qft_dagger_order_witness:
  "(0::int) \<le> 3 \<and> (3::int) \<le> 1024
   \<and> fst (qft_dagger (QuantumCircuit 4 3) 3) = Inr ()
   \<and> data (snd (qft_dagger (QuantumCircuit 4 3) 3)) =
     [Swap 0 2, H 0, CU1 (- pi / 2) 0 1, H 1, CU1 (- pi / 4) 0 2, CU1 (- pi / 2) 1 2, H 2]"
  using qft_dagger_order [of 3 "QuantumCircuit 4 3"]
  by (simp add: QuantumCircuit_def py_range_def upt_rec)

text \<open>
  Claim C2 as stated, for every \<open>n\<close>, fails at \<open>n = 1025\<close>: the call raises at the first
  rotation onto qubit 1024 (\<open>j = 1024\<close>, \<open>m = 0\<close>), so neither that rotation nor the Hadamard
  gate on qubit 1024, both in the claimed order, is ever added.
\<close>

theorem qft_dagger_order_counterexample:
  "fst (qft_dagger (QuantumCircuit 1026 1025) 1025) = Inl OverflowError
   \<and> H 1024 \<notin> set (data (snd (qft_dagger (QuantumCircuit 1026 1025) 1025)))
   \<and> CU1 (- pi / 2 ^ 1024) 0 1024 \<notin> set (data (snd (qft_dagger (QuantumCircuit 1026 1025) 1025)))"
proof -
  have "H 1024 \<notin> set (data (snd (qft_dagger (QuantumCircuit 1026 1025) 1025)))"
    unfolding qft_dagger_1025_data by (auto simp add: QuantumCircuit_def in_py_range)
  moreover have "CU1 (- pi / 2 ^ 1024) 0 1024
      \<notin> set (data (snd (qft_dagger (QuantumCircuit 1026 1025) 1025)))"
    unfolding qft_dagger_1025_data by (auto simp add: QuantumCircuit_def in_py_range)
  ultimately show ?thesis
    by (simp add: qft_dagger_1025)
qed

section \<open>The state preparation emits its operations in order\<close>

lemma fold_const_emit_data:
  "data (fold (\<lambda>_. emit g) as c) = data c @ replicate (length as) g"
  using fold_emit_data [of "\<lambda>_. g" as c] by (simp add: map_replicate_const)

lemma fold_repeat_data:
  "data (fold (\<lambda>a c. fold (\<lambda>_. emit (g a)) (ms a) c) as c0)
     = data c0 @ concat (map (\<lambda>a. replicate (length (ms a)) (g a)) as)"
  by (induction as arbitrary: c0) (simp_all add: fold_const_emit_data)

lemma fold_repeat_qubits:
  "num_qubits (fold (\<lambda>a c. fold (\<lambda>_. emit (g a)) (ms a) c) as c0) = num_qubits c0"
  by (induction as arbitrary: c0) (simp_all add: fold_emit_qubits)

lemma fold_repeat_clbits:
  "num_clbits (fold (\<lambda>a c. fold (\<lambda>_. emit (g a)) (ms a) c) as c0) = num_clbits c0"
  by (induction as arbitrary: c0) (simp_all add: fold_emit_clbits)

lemma circ_h_emit: "circ_h = (\<lambda>q. emit (H q))"
  by (rule ext) (simp add: circ_h_def)

lemma nat_two_power: "nat ((2::int) ^ k) = 2 ^ k"
  by (simp add: nat_power_eq)

lemma qpe_pre_data:
  "data (snd (qpe_pre c n)) =
     data c @ map H (py_range n) @ [X n]
      @ concat (map (\<lambda>x. replicate (2 ^ nat (n - 1 - x)) (CU1 1 (n - 1 - x) n)) (rev (py_range n)))"
  by (simp add: qpe_pre_def Let_def circ_h_each_def circ_h_emit circ_x_def circ_cu1_def
       fold_repeat_data fold_emit_data data_emit length_py_range nat_two_power)

lemma qpe_pre_registers:
  "num_qubits (snd (qpe_pre c n)) = num_qubits c"
  "num_clbits (snd (qpe_pre c n)) = num_clbits c"
  by (simp_all add: qpe_pre_def Let_def circ_h_each_def circ_h_emit circ_x_def circ_cu1_def
       fold_repeat_qubits fold_repeat_clbits fold_emit_qubits fold_emit_clbits emit_def)

lemma py_range_Suc_front: "py_range (int (Suc k)) = 0 # map (\<lambda>q. q + 1) (py_range (int k))"
proof -
  have "nat (int (Suc k)) = Suc k" by (rule nat_int)
  moreover have "[0..<Suc k] = 0 # map Suc [0..<k]"
    by (simp add: upt_conv_Cons map_Suc_upt del: upt_Suc)
  ultimately show ?thesis unfolding py_range_def by (simp add: comp_def del: upt_Suc)
qed

lemma rev_range_reindex:
  "map (\<lambda>x. F (int k - 1 - x)) (rev (py_range (int k))) = map F (py_range (int k))"
proof (induction k arbitrary: F)
  case 0
  show ?case by (simp add: py_range_def)
next
  case (Suc k)
  have "map (\<lambda>x. F (int (Suc k) - 1 - x)) (rev (py_range (int (Suc k))))
        = F 0 # map (\<lambda>x. F (int k - x)) (rev (py_range (int k)))"
    unfolding py_range_Suc by simp
  also have "map (\<lambda>x. F (int k - x)) (rev (py_range (int k)))
        = map (\<lambda>x. (\<lambda>q. F (q + 1)) (int k - 1 - x)) (rev (py_range (int k)))"
    by simp
  also have "\<dots> = map (\<lambda>q. F (q + 1)) (py_range (int k))"
    by (rule Suc.IH)
  finally show ?case unfolding py_range_Suc_front by (simp add: comp_def)
qed

lemma count_phase_blocks:
  "int (length (concat (map (\<lambda>q. replicate (2 ^ nat q) (g q)) (py_range (int k))))) = 2 ^ k - 1"
proof (induction k)
  case 0
  show ?case by (simp add: py_range_def)
next
  case (Suc k)
  show ?case unfolding py_range_Suc using Suc.IH by (simp del: of_nat_Suc)
qed

lemma filter_phase_blocks:
  "filter is_CU1 (concat (map (\<lambda>q. replicate (r q) (CU1 (t q) (a q) (b q))) qs))
     = concat (map (\<lambda>q. replicate (r q) (CU1 (t q) (a q) (b q))) qs)"
  by (induction qs) simp_all

lemma filter_h_row: "filter is_CU1 (map H qs) = []"
  by (induction qs) simp_all

text \<open>
  Claim C3. For a qubit count \<open>n\<close>, \<^verbatim>\<open>qpe_pre\<close> adds a Hadamard gate on each of the first \<open>n\<close>
  qubits, then an X gate on the auxiliary qubit \<open>n\<close>, and then, for \<open>x\<close> from \<open>n - 1\<close> down to
  \<open>0\<close>, exactly \<open>2 ^ (n - 1 - x)\<close> controlled rotations of phase 1 between the estimation qubit
  \<open>n - 1 - x\<close> and the auxiliary qubit: \<open>2 ^ n - 1\<close> controlled-phase operations in all.
\<close>

theorem qpe_pre_operations:
  assumes "0 \<le> n"
  shows "data (snd (qpe_pre c n)) =
           data c @ map H (py_range n) @ [X n]
           @ concat (map (\<lambda>x. replicate (2 ^ nat (n - 1 - x)) (CU1 1 (n - 1 - x) n))
                      (rev (py_range n)))
       \<and> int (count_ops is_CU1 (snd (qpe_pre c n))) = int (count_ops is_CU1 c) + 2 ^ nat n - 1"
proof -
  obtain k where k: "n = int k"
    using assms nonneg_int_cases by blast
  have blocks: "concat (map (\<lambda>x. replicate (2 ^ nat (n - 1 - x)) (CU1 1 (n - 1 - x) n)) (rev (py_range n)))
      = concat (map (\<lambda>q. replicate (2 ^ nat q) (CU1 1 q n)) (py_range n))"
    unfolding k
    using rev_range_reindex [of "\<lambda>q. replicate (2 ^ nat q) (CU1 1 q (int k))" k] by simp
  have "int (count_ops is_CU1 (snd (qpe_pre c n))) = int (count_ops is_CU1 c) + 2 ^ nat n - 1"
    unfolding count_ops_def qpe_pre_data blocks filter_append length_append
    using count_phase_blocks [of "\<lambda>q. CU1 1 q n" k]
    by (simp add: filter_h_row filter_phase_blocks k)
  then show ?thesis by (simp add: qpe_pre_data)
qed

theorem qpe_pre_operations_witness:
  "(0::int) \<le> 2
   \<and> data (snd (qpe_pre (QuantumCircuit 3 2) 2)) =
       [H 0, H 1, X 2, CU1 1 0 2, CU1 1 1 2, CU1 1 1 2]
   \<and> count_ops is_CU1 (snd (qpe_pre (QuantumCircuit 3 2) 2)) = 3"
  using qpe_pre_operations [of 2 "QuantumCircuit 3 2"]
  by (simp add: QuantumCircuit_def count_ops_def py_range_def upt_rec numeral_2_eq_2)

lemma qpe_pre_returns: "fst (qpe_pre c n) = Inr ()"
  by (simp add: qpe_pre_def Let_def)

lemma gates_only_blocks:
  "list_all (\<lambda>g. \<not> is_Barrier g \<and> \<not> is_Measure g)
     (concat (map (\<lambda>q. replicate (r q) (CU1 (t q) (a q) (b q))) qs))"
  by (induction qs) (auto simp add: list_all_iff)

text \<open>
  Claim C10, as amended. For every circuit and qubit count, \<^verbatim>\<open>qft_dagger\<close> and \<^verbatim>\<open>qpe_pre\<close> only
  add gate operations at the end of the circuit they are given: the operations present
  before the call stay where they were, unchanged, and the numbers of qubits and classical
  bits do not change, also when \<^verbatim>\<open>qft_dagger\<close> raises. \<^verbatim>\<open>qpe_pre\<close> returns nothing;
  \<^verbatim>\<open>qft_dagger\<close> returns nothing for a qubit count \<open>0 \<le> n \<le> 1024\<close> and raises
  \<^verbatim>\<open>OverflowError\<close> from 1025 on.
\<close>

theorem builders_only_append:
  "(\<exists>added. data (snd (qft_dagger c n)) = data c @ added
       \<and> list_all (\<lambda>g. \<not> is_Barrier g \<and> \<not> is_Measure g) added)
   \<and> num_qubits (snd (qft_dagger c n)) = num_qubits c
   \<and> num_clbits (snd (qft_dagger c n)) = num_clbits c
   \<and> (0 \<le> n \<and> n \<le> 1024 \<longrightarrow> fst (qft_dagger c n) = Inr ())
   \<and> (1025 \<le> n \<longrightarrow> fst (qft_dagger c n) = Inl OverflowError)
   \<and> (\<exists>added. data (snd (qpe_pre c n)) = data c @ added
       \<and> list_all (\<lambda>g. \<not> is_Barrier g \<and> \<not> is_Measure g) added)
   \<and> num_qubits (snd (qpe_pre c n)) = num_qubits c
   \<and> num_clbits (snd (qpe_pre c n)) = num_clbits c
   \<and> fst (qpe_pre c n) = Inr ()"
proof -
  have qft: "\<exists>added. data (snd (qft_dagger c n)) = data c @ added
       \<and> list_all (\<lambda>g. \<not> is_Barrier g \<and> \<not> is_Measure g) added"
    using qft_dagger_frame [of c n] by blast
  have "list_all (\<lambda>g. \<not> is_Barrier g \<and> \<not> is_Measure g)
      (map H (py_range n) @ [X n]
       @ concat (map (\<lambda>x. replicate (2 ^ nat (n - 1 - x)) (CU1 1 (n - 1 - x) n)) (rev (py_range n))))"
    by (auto simp add: list_all_iff)
  then have qpe: "\<exists>added. data (snd (qpe_pre c n)) = data c @ added
       \<and> list_all (\<lambda>g. \<not> is_Barrier g \<and> \<not> is_Measure g) added"
    using qpe_pre_data [of c n] by blast
  have ok: "0 \<le> n \<and> n \<le> 1024 \<longrightarrow> fst (qft_dagger c n) = Inr ()"
    by (simp add: qft_dagger_ok)
  have bad: "1025 \<le> n \<longrightarrow> fst (qft_dagger c n) = Inl OverflowError"
    by (simp add: qft_dagger_raises)
  show ?thesis
    using qft qpe ok bad by (simp add: qft_dagger_registers qpe_pre_registers qpe_pre_returns)
qed

theorem builders_only_append_witness:
  "take 2 (data (snd (qft_dagger \<lparr>num_qubits = 3, num_clbits = 2, data = [X 2, Barrier]\<rparr> 2)))
     = [X 2, Barrier]
   \<and> num_qubits (snd (qft_dagger \<lparr>num_qubits = 3, num_clbits = 2, data = [X 2, Barrier]\<rparr> 2)) = 3
   \<and> num_clbits (snd (qft_dagger \<lparr>num_qubits = 3, num_clbits = 2, data = [X 2, Barrier]\<rparr> 2)) = 2
   \<and> fst (qft_dagger \<lparr>num_qubits = 3, num_clbits = 2, data = [X 2, Barrier]\<rparr> 2) = Inr ()
   \<and> take 2 (data (snd (qpe_pre \<lparr>num_qubits = 3, num_clbits = 2, data = [X 2, Barrier]\<rparr> 2)))
     = [X 2, Barrier]
   \<and> num_qubits (snd (qpe_pre \<lparr>num_qubits = 3, num_clbits = 2, data = [X 2, Barrier]\<rparr> 2)) = 3
   \<and> num_clbits (snd (qpe_pre \<lparr>num_qubits = 3, num_clbits = 2, data = [X 2, Barrier]\<rparr> 2)) = 2
   \<and> fst (qpe_pre \<lparr>num_qubits = 3, num_clbits = 2, data = [X 2, Barrier]\<rparr> 2) = Inr ()"
  using builders_only_append [of "\<lparr>num_qubits = 3, num_clbits = 2, data = [X 2, Barrier]\<rparr>" 2]
  by auto

text \<open>
  Claim C10 as stated, with both builders returning nothing for every qubit count, fails
  at \<open>n = 1025\<close>: \<^verbatim>\<open>qft_dagger\<close> ends with an exception there.
\<close>

theorem builders_only_append_counterexample:
  "fst (qft_dagger \<lparr>num_qubits = 1026, num_clbits = 1025, data = [Barrier]\<rparr> 1025) = Inl OverflowError
   \<and> fst (qft_dagger \<lparr>num_qubits = 1026, num_clbits = 1025, data = [Barrier]\<rparr> 1025) \<noteq> Inr ()"
  by (simp add: qft_dagger_1025)

section \<open>From the counts to the estimate\<close>

lemma builders_return:
  assumes "0 \<le> n" and "n \<le> 1024"
  shows "qpe_pre (QuantumCircuit (n + 1) n) n = (Inr (), snd (qpe_pre (QuantumCircuit (n + 1) n) n))"
    and "qft_dagger (circ_barrier (snd (qpe_pre (QuantumCircuit (n + 1) n) n))) n
           = (Inr (), snd (qft_dagger (circ_barrier (snd (qpe_pre (QuantumCircuit (n + 1) n) n))) n))"
proof -
  show "qpe_pre (QuantumCircuit (n + 1) n) n = (Inr (), snd (qpe_pre (QuantumCircuit (n + 1) n) n))"
    using qpe_pre_returns [of "QuantumCircuit (n + 1) n" n] by (simp add: prod_eq_iff)
  show "qft_dagger (circ_barrier (snd (qpe_pre (QuantumCircuit (n + 1) n) n))) n
           = (Inr (), snd (qft_dagger (circ_barrier (snd (qpe_pre (QuantumCircuit (n + 1) n) n))) n))"
    using qft_dagger_ok [OF assms] by (simp add: prod_eq_iff)
qed

lemma get_pi_estimate_world:
  assumes "0 \<le> n" and "n \<le> 1024"
  shows "snd (get_pi_estimate simulator n w) =
     (if n < 10 then savefig (py_str n @ ''_qubit_circuit.png'') (pi_circuit n) w else w)
       \<lparr>jobs := jobs (if n < 10 then savefig (py_str n @ ''_qubit_circuit.png'') (pi_circuit n) w else w)
                  @ [(pi_circuit n, 10000, 0)]\<rparr>"
proof -
  obtain c1 where 1: "qpe_pre (QuantumCircuit (n + 1) n) n = (Inr (), c1)"
    and c1: "c1 = snd (qpe_pre (QuantumCircuit (n + 1) n) n)"
    using builders_return(1) [OF assms] by blast
  obtain c2 where 2: "qft_dagger (circ_barrier c1) n = (Inr (), c2)"
    and c2: "c2 = snd (qft_dagger (circ_barrier c1) n)"
    using builders_return(2) [OF assms] c1 by blast
  have pc: "circ_measure_each (py_range n) (py_range n) (circ_barrier c2) = pi_circuit n"
    by (simp add: pi_circuit_def c1 c2)
  show ?thesis
    by (simp add: get_pi_estimate_def 1 2 pc run_job_def Let_def split: sum.splits)
qed

lemma get_pi_estimate_result:
  assumes "0 \<le> n" and "n \<le> 1024"
  shows "fst (get_pi_estimate simulator n w) =
     (case simulator (pi_circuit n) 10000 0 of
        Inl e \<Rightarrow> Inl e
      | Inr cnts \<Rightarrow>
          (case max_key cnts of
             Inl e \<Rightarrow> Inl e
           | Inr s \<Rightarrow>
               (case int_base2 s of
                  Inl e \<Rightarrow> Inl e
                | Inr k \<Rightarrow> if 2 * theta_of k n = 0 then Inl ZeroDivisionError
                           else Inr (1 / (2 * theta_of k n)))))"
proof -
  obtain c1 where 1: "qpe_pre (QuantumCircuit (n + 1) n) n = (Inr (), c1)"
    and c1: "c1 = snd (qpe_pre (QuantumCircuit (n + 1) n) n)"
    using builders_return(1) [OF assms] by blast
  obtain c2 where 2: "qft_dagger (circ_barrier c1) n = (Inr (), c2)"
    and c2: "c2 = snd (qft_dagger (circ_barrier c1) n)"
    using builders_return(2) [OF assms] c1 by blast
  have pc: "circ_measure_each (py_range n) (py_range n) (circ_barrier c2) = pi_circuit n"
    by (simp add: pi_circuit_def c1 c2)
  show ?thesis
    by (simp add: get_pi_estimate_def 1 2 pc run_job_def Let_def split: sum.splits)
qed

text \<open>Whatever the builders do, the call prints nothing and saves no file from 10 qubits on.\<close>

lemma get_pi_estimate_stdout: "stdout (snd (get_pi_estimate sim n w)) = stdout w"
  by (simp add: get_pi_estimate_def run_job_def savefig_def Let_def split: sum.splits prod.splits)

lemma get_pi_estimate_no_file:
  "10 \<le> n \<Longrightarrow> files (snd (get_pi_estimate sim n w)) = files w"
  by (simp add: get_pi_estimate_def run_job_def Let_def split: sum.splits prod.splits)

lemma max_from_mem: "max_from best rest \<in> set (best # rest)"
  by (induction rest arbitrary: best) auto

lemma max_from_ge_best: "snd best \<le> snd (max_from best rest)"
proof (induction rest arbitrary: best)
  case Nil
  show ?case by simp
next
  case (Cons kv rest)
  have "snd best \<le> snd (if snd best < snd kv then kv else best)" by simp
  also have "\<dots> \<le> snd (max_from (if snd best < snd kv then kv else best) rest)"
    by (rule Cons.IH)
  finally show ?case by simp
qed

lemma max_from_ge_all: "kv \<in> set (best # rest) \<Longrightarrow> snd kv \<le> snd (max_from best rest)"
proof (induction rest arbitrary: best)
  case Nil
  then show ?case by simp
next
  case (Cons a rest)
  let ?b = "if snd best < snd a then a else best"
  from Cons.prems consider "kv = best" | "kv = a" | "kv \<in> set rest" by auto
  then show ?case
  proof cases
    case 1
    have "snd best \<le> snd ?b" by simp
    also have "\<dots> \<le> snd (max_from ?b rest)" by (rule max_from_ge_best)
    finally show ?thesis using 1 by simp
  next
    case 2
    have "snd a \<le> snd ?b" by simp
    also have "\<dots> \<le> snd (max_from ?b rest)" by (rule max_from_ge_best)
    finally show ?thesis using 2 by simp
  next
    case 3
    then have "kv \<in> set (?b # rest)" by simp
    then have "snd kv \<le> snd (max_from ?b rest)" by (rule Cons.IH)
    then show ?thesis by simp
  qed
qed

lemma max_key_mode:
  assumes "cnts \<noteq> []"
  shows "\<exists>s c. max_key cnts = Inr s \<and> (s, c) \<in> set cnts \<and> (\<forall>kv\<in>set cnts. snd kv \<le> c)"
proof -
  from assms obtain kv rest where c: "cnts = kv # rest" by (cases cnts) auto
  let ?m = "max_from kv rest"
  have "max_key cnts = Inr (fst ?m)" by (simp add: max_key_def c)
  moreover have "(fst ?m, snd ?m) \<in> set cnts" using max_from_mem [of kv rest] by (simp add: c)
  moreover have "\<forall>x\<in>set cnts. snd x \<le> snd ?m" using max_from_ge_all [of _ kv rest] by (simp add: c)
  ultimately show ?thesis by blast
qed

lemma int_base2_from_bits:
  "is_bitstring s \<Longrightarrow> int_base2_from acc s = Inr (acc * 2 ^ length s + bits_value s)"
proof (induction s arbitrary: acc)
  case Nil
  show ?case by simp
next
  case (Cons ch s)
  then have ch: "ch = CHR ''0'' \<or> ch = CHR ''1''" and s: "is_bitstring s"
    by (simp_all add: is_bitstring_def)
  from ch show ?case
  proof
    assume "ch = CHR ''0''"
    then show ?thesis using Cons.IH [OF s, of "2 * acc + 0"]
      by (simp add: bit_of_def algebra_simps)
  next
    assume "ch = CHR ''1''"
    then show ?thesis using Cons.IH [OF s, of "2 * acc + 1"]
      by (simp add: bit_of_def algebra_simps)
  qed
qed

lemma int_base2_bits:
  "s \<noteq> [] \<Longrightarrow> is_bitstring s \<Longrightarrow> int_base2 s = Inr (bits_value s)"
  by (simp add: int_base2_def int_base2_from_bits)

lemma bits_value_bounds: "0 \<le> bits_value s \<and> bits_value s < 2 ^ length s"
  by (induction s) auto

lemma theta_of_nonneg_n: "0 \<le> n \<Longrightarrow> theta_of k n = real_of_int k / 2 ^ nat n"
  by (simp add: theta_of_def power_int_def)

lemma two_theta_zero: "theta_of k n = 0 \<longleftrightarrow> k = 0"
  by (simp add: theta_of_def)




text \<open>
  Claim C6. For a qubit count \<open>n\<close> (from 0 to 1024, where the circuit gets built) and a
  counts table whose keys are bitstrings of \<open>n\<close> bits,
  the value \<open>theta = k / 2 ^ n\<close> that \<^verbatim>\<open>get_pi_estimate\<close> computes from the most frequent
  outcome \<open>k\<close> lies in the interval from 0 (included) to 1 (excluded). With no bit at all
  (\<open>n = 0\<close>) the key is the empty string, its conversion raises, and no \<open>theta\<close> is computed.
\<close>

theorem theta_in_unit_interval:
  assumes "0 \<le> n"
    and "simulator (pi_circuit n) 10000 0 = Inr cnts"
    and "cnts \<noteq> []"
    and "\<forall>kv\<in>set cnts. length (fst kv) = nat n \<and> is_bitstring (fst kv)"
    and "n \<le> 1024"
  shows "\<exists>s. max_key cnts = Inr s
           \<and> (n = 0 \<and> fst (get_pi_estimate simulator n w) = Inl ValueError
               \<or> (\<exists>k. int_base2 s = Inr k \<and> 0 \<le> theta_of k n \<and> theta_of k n < 1
                     \<and> fst (get_pi_estimate simulator n w) =
                          (if 2 * theta_of k n = 0 then Inl ZeroDivisionError
                           else Inr (1 / (2 * theta_of k n)))))"
proof -
  from max_key_mode [OF assms(3)] obtain s c where
    m: "max_key cnts = Inr s" and mem: "(s, c) \<in> set cnts"
    by blast
  from mem assms(4) have len: "length s = nat n" and bits: "is_bitstring s" by fastforce+
  show ?thesis
  proof (cases "n = 0")
    case True
    with len have "s = []" by simp
    then have "fst (get_pi_estimate simulator n w) = Inl ValueError"
      by (simp add: get_pi_estimate_result [OF assms(1) assms(5)] assms(2) m int_base2_def)
    with True m show ?thesis by blast
  next
    case False
    with len assms(1) have "s \<noteq> []" by auto
    then have d: "int_base2 s = Inr (bits_value s)" using bits by (rule int_base2_bits)
    have b: "0 \<le> bits_value s" "bits_value s < 2 ^ nat n"
      using bits_value_bounds [of s] len by simp_all
    have "real_of_int (bits_value s) < real_of_int (2 ^ nat n)"
      using b(2) by (simp only: of_int_less_iff)
    then have "theta_of (bits_value s) n < 1"
      by (simp add: theta_of_nonneg_n [OF assms(1)])
    moreover have "0 \<le> theta_of (bits_value s) n"
      using b(1) by (simp add: theta_of_nonneg_n [OF assms(1)])
    moreover have "fst (get_pi_estimate simulator n w) =
        (if 2 * theta_of (bits_value s) n = 0 then Inl ZeroDivisionError
         else Inr (1 / (2 * theta_of (bits_value s) n)))"
      by (simp add: get_pi_estimate_result [OF assms(1) assms(5)] assms(2) m d)
    ultimately show ?thesis using m d by blast
  qed
qed

theorem theta_in_unit_interval_witness:
  "(0::int) \<le> 2 \<and> (2::int) \<le> 1024
   \<and> max_key [(''11'', 6000), (''01'', 4000)] = Inr ''11''
   \<and> int_base2 ''11'' = Inr 3
   \<and> theta_of 3 2 = 3 / 4
   \<and> fst (get_pi_estimate (fixed_backend [(''11'', 6000), (''01'', 4000)]) 2 empty_world) = Inr (2 / 3)"
  using theta_in_unit_interval [of 2 "fixed_backend [(''11'', 6000), (''01'', 4000)]"
      "[(''11'', 6000), (''01'', 4000)]" empty_world]
  by (auto simp add: fixed_backend_def is_bitstring_def max_key_def int_base2_def bit_of_def
        theta_of_def)

lemma py_str_digit:
  assumes "0 \<le> n" and "n < 10"
  shows "py_str n = [''0123456789'' ! nat n]"
proof -
  have "nat n < 10" using assms by simp
  then show ?thesis using assms by (simp add: py_str_def digit_char_def)
qed

lemma digit_names:
  assumes "d < 10"
  shows "[''0123456789'' ! d] @ ''_qubit_circuit.png'' =
     [''0_qubit_circuit.png'', ''1_qubit_circuit.png'', ''2_qubit_circuit.png'',
      ''3_qubit_circuit.png'', ''4_qubit_circuit.png'', ''5_qubit_circuit.png'',
      ''6_qubit_circuit.png'', ''7_qubit_circuit.png'', ''8_qubit_circuit.png'',
      ''9_qubit_circuit.png''] ! d"
proof -
  from assms have "d = 0 \<or> d = 1 \<or> d = 2 \<or> d = 3 \<or> d = 4 \<or> d = 5 \<or> d = 6
    \<or> d = 7 \<or> d = 8 \<or> d = 9"
    by arith
  then show ?thesis by (elim disjE) simp_all
qed

text \<open>
  Claim C9. \<^verbatim>\<open>get_pi_estimate\<close> saves one image file, named by the qubit count (its one
  decimal digit) followed by \<^verbatim>\<open>_qubit_circuit.png\<close>, exactly when \<open>n < 10\<close>; for \<open>n \<ge> 10\<close> it
  saves none, and it writes no other file.
\<close>

theorem diagram_saved_below_ten:
  assumes "0 \<le> n"
  shows "files (snd (get_pi_estimate simulator n w)) =
           files w @
           (if n < 10
            then [([''0_qubit_circuit.png'', ''1_qubit_circuit.png'', ''2_qubit_circuit.png'',
                    ''3_qubit_circuit.png'', ''4_qubit_circuit.png'', ''5_qubit_circuit.png'',
                    ''6_qubit_circuit.png'', ''7_qubit_circuit.png'', ''8_qubit_circuit.png'',
                    ''9_qubit_circuit.png''] ! nat n,
                   pi_circuit n)]
            else [])"
proof (cases "n < 10")
  case True
  then have small: "n \<le> 1024" and d: "nat n < 10" using assms by simp_all
  show ?thesis
    using True digit_names [OF d]
    by (simp add: get_pi_estimate_world [OF assms small] savefig_def py_str_digit [OF assms True])
next
  case False
  then show ?thesis by (simp add: get_pi_estimate_no_file)
qed

theorem diagram_saved_below_ten_witness:
  "(0::int) \<le> 3
   \<and> files (snd (get_pi_estimate recorded_backend 3 empty_world)) =
       [(''3_qubit_circuit.png'', pi_circuit 3)]
   \<and> (0::int) \<le> 10
   \<and> files (snd (get_pi_estimate recorded_backend 10 empty_world)) = []"
  using diagram_saved_below_ten [of 3 recorded_backend empty_world]
    diagram_saved_below_ten [of 10 recorded_backend empty_world]
  by (simp add: empty_world_def)

text \<open>
  Claim C7, as amended. When the caller does not supply them, the shot count of
  \<^verbatim>\<open>run_job\<close> is 1000 and its optimization level is 0. (The 10000 shots of the
  estimation are passed by \<^verbatim>\<open>get_pi_estimate\<close> itself.)
\<close>

theorem run_job_defaults:
  "run_job circ backend None None w =
     (backend circ 1000 0, w\<lparr>jobs := jobs w @ [(circ, 1000, 0)]\<rparr>)
   \<and> run_job circ backend None level w = run_job circ backend (Some 1000) level w
   \<and> run_job circ backend shots None w = run_job circ backend shots (Some 0) w"
  by (simp add: run_job_def)

text \<open>
  Claim C7 as stated, with a default shot count of 10000, fails: a job run without a shot
  count is submitted with 1000 shots.
\<close>

theorem run_job_default_shots_counterexample:
  "jobs (snd (run_job (QuantumCircuit 1 1) (fixed_backend []) None None empty_world))
     = [(QuantumCircuit 1 1, 1000, 0)]
   \<and> jobs (snd (run_job (QuantumCircuit 1 1) (fixed_backend []) None None empty_world))
     \<noteq> [(QuantumCircuit 1 1, 10000, 0)]"
  by (simp add: run_job_def empty_world_def)

section \<open>The sweep\<close>

lemma get_pi_estimate_jobs:
  "0 \<le> n \<Longrightarrow> n \<le> 1024
     \<Longrightarrow> jobs (snd (get_pi_estimate sim n w)) = jobs w @ [(pi_circuit n, 10000, 0)]"
  by (simp add: get_pi_estimate_world savefig_def)

lemma get_pi_estimate_any_world:
  "0 \<le> n \<Longrightarrow> n \<le> 1024
     \<Longrightarrow> fst (get_pi_estimate sim n w) = fst (get_pi_estimate sim n w0)"
  by (simp add: get_pi_estimate_result)

lemma sweep_loop_step_ok:
  assumes "fst (get_pi_estimate sim nq w) = Inr v"
  shows "sweep_loop sim (nq # nqs) acc w =
           sweep_loop sim nqs (acc @ [v]) (print_line (nq, v) (snd (get_pi_estimate sim nq w)))"
  using assms by (cases "get_pi_estimate sim nq w") simp

lemma sweep_loop_step_fault:
  assumes "fst (get_pi_estimate sim nq w) = Inl e"
  shows "sweep_loop sim (nq # nqs) acc w = (Some e, acc, snd (get_pi_estimate sim nq w))"
  using assms by (cases "get_pi_estimate sim nq w") simp

lemma sweep_loop_ok:
  assumes "\<forall>nq\<in>set nqs. \<exists>v. fst (get_pi_estimate sim nq w0) = Inr v"
    and "\<forall>nq\<in>set nqs. 0 \<le> nq \<and> nq \<le> 1024"
  shows "\<exists>ests w'. sweep_loop sim nqs acc w = (None, acc @ ests, w')
           \<and> map Inr ests = map (\<lambda>nq. fst (get_pi_estimate sim nq w0)) nqs
           \<and> stdout w' = stdout w @ zip nqs ests
           \<and> map fst (jobs w') = map fst (jobs w) @ map pi_circuit nqs"
  using assms
proof (induction nqs arbitrary: acc w)
  case Nil
  show ?case by simp
next
  case (Cons nq nqs)
  then obtain v where v0: "fst (get_pi_estimate sim nq w0) = Inr v" by auto
  from Cons.prems have nq: "0 \<le> nq" "nq \<le> 1024" by simp_all
  have v: "fst (get_pi_estimate sim nq w) = Inr v"
    using v0 get_pi_estimate_any_world [OF nq, of sim w w0] by simp
  let ?w1 = "print_line (nq, v) (snd (get_pi_estimate sim nq w))"
  from Cons.prems have rest: "\<forall>m\<in>set nqs. \<exists>v. fst (get_pi_estimate sim m w0) = Inr v"
    and rest_range: "\<forall>m\<in>set nqs. 0 \<le> m \<and> m \<le> 1024" by simp_all
  from Cons.IH [OF rest rest_range, of "acc @ [v]" ?w1] obtain ests w' where
    run: "sweep_loop sim nqs (acc @ [v]) ?w1 = (None, (acc @ [v]) @ ests, w')"
    and vals: "map Inr ests = map (\<lambda>nq. fst (get_pi_estimate sim nq w0)) nqs"
    and out: "stdout w' = stdout ?w1 @ zip nqs ests"
    and js: "map fst (jobs w') = map fst (jobs ?w1) @ map pi_circuit nqs"
    by blast
  have "sweep_loop sim (nq # nqs) acc w = (None, acc @ (v # ests), w')"
    using sweep_loop_step_ok [OF v] run by simp
  moreover have "map Inr (v # ests) = map (\<lambda>nq. fst (get_pi_estimate sim nq w0)) (nq # nqs)"
    using vals v0 by simp
  moreover have "stdout w' = stdout w @ zip (nq # nqs) (v # ests)"
    using out by (simp add: print_line_def get_pi_estimate_stdout)
  moreover have "map fst (jobs w') = map fst (jobs w) @ map pi_circuit (nq # nqs)"
    using js by (simp add: print_line_def get_pi_estimate_jobs [OF nq])
  ultimately show ?case by blast
qed

lemma sweep_loop_abort:
  assumes "fst (get_pi_estimate sim nq w0) = Inl e"
    and "0 \<le> nq" and "nq \<le> 1024"
    and "\<forall>m\<in>set xs. 0 \<le> m \<and> m \<le> 1024"
  shows "\<exists>e' ests w'. sweep_loop sim (xs @ nq # ys) acc w = (Some e', acc @ ests, w')
           \<and> length ests \<le> length xs
           \<and> length (stdout w') = length (stdout w) + length ests
           \<and> length (jobs w') = length (jobs w) + length ests + 1
           \<and> ((\<forall>m\<in>set xs. \<exists>v. fst (get_pi_estimate sim m w0) = Inr v)
                \<longrightarrow> e' = e \<and> length ests = length xs)"
  using assms(4)
proof (induction xs arbitrary: acc w)
  case Nil
  have "fst (get_pi_estimate sim nq w) = Inl e"
    using assms(1) get_pi_estimate_any_world [OF assms(2,3), of sim w w0] by simp
  then have "sweep_loop sim ([] @ nq # ys) acc w = (Some e, acc @ [], snd (get_pi_estimate sim nq w))"
    using sweep_loop_step_fault by simp
  then show ?case by (simp add: get_pi_estimate_stdout get_pi_estimate_jobs [OF assms(2,3)])
next
  case (Cons x xs)
  then have x: "0 \<le> x" "x \<le> 1024" and rest: "\<forall>m\<in>set xs. 0 \<le> m \<and> m \<le> 1024"
    by simp_all
  show ?case
  proof (cases "fst (get_pi_estimate sim x w0)")
    case (Inl ex)
    then have "fst (get_pi_estimate sim x w) = Inl ex"
      using get_pi_estimate_any_world [OF x, of sim w w0] by simp
    then have "sweep_loop sim ((x # xs) @ nq # ys) acc w = (Some ex, acc @ [], snd (get_pi_estimate sim x w))"
      using sweep_loop_step_fault by simp
    moreover have "\<not> (\<forall>m\<in>set (x # xs). \<exists>v. fst (get_pi_estimate sim m w0) = Inr v)"
      using Inl by simp
    ultimately show ?thesis
      by (simp add: get_pi_estimate_stdout get_pi_estimate_jobs [OF x])
  next
    case (Inr v)
    then have v: "fst (get_pi_estimate sim x w) = Inr v"
      using get_pi_estimate_any_world [OF x, of sim w w0] by simp
    let ?w1 = "print_line (x, v) (snd (get_pi_estimate sim x w))"
    from Cons.IH [OF rest, of "acc @ [v]" ?w1] obtain e' ests w' where
      run: "sweep_loop sim (xs @ nq # ys) (acc @ [v]) ?w1 = (Some e', (acc @ [v]) @ ests, w')"
      and len: "length ests \<le> length xs"
      and out: "length (stdout w') = length (stdout ?w1) + length ests"
      and js: "length (jobs w') = length (jobs ?w1) + length ests + 1"
      and first: "(\<forall>m\<in>set xs. \<exists>v. fst (get_pi_estimate sim m w0) = Inr v)
                    \<longrightarrow> e' = e \<and> length ests = length xs"
      by blast
    have "sweep_loop sim ((x # xs) @ nq # ys) acc w = (Some e', acc @ (v # ests), w')"
      using sweep_loop_step_ok [OF v] run by simp
    moreover have "length (v # ests) \<le> length (x # xs)" using len by simp
    moreover have "length (stdout w') = length (stdout w) + length (v # ests)"
      using out by (simp add: print_line_def get_pi_estimate_stdout)
    moreover have "length (jobs w') = length (jobs w) + length (v # ests) + 1"
      using js by (simp add: print_line_def get_pi_estimate_jobs [OF x])
    moreover have "(\<forall>m\<in>set (x # xs). \<exists>v. fst (get_pi_estimate sim m w0) = Inr v)
                    \<longrightarrow> e' = e \<and> length (v # ests) = length (x # xs)"
      using first by simp
    ultimately show ?thesis by blast
  qed
qed

lemma in_py_range2: "m \<in> set (py_range2 a b) \<Longrightarrow> a \<le> m \<and> m < b"
  by (auto simp add: py_range2_def)

lemma py_range2_sweep: "py_range2 2 (12 + 1) = [2, 3, 4, 5, 6, 7, 8, 9, 10, 11, 12]"
  by (simp add: py_range2_def upt_rec)

lemma measure_each_registers:
  "num_qubits (fold (\<lambda>(q, c). emit (Measure q c)) ps circ) = num_qubits circ"
  "num_clbits (fold (\<lambda>(q, c). emit (Measure q c)) ps circ) = num_clbits circ"
  by (induction ps arbitrary: circ) (simp_all add: emit_def split: prod.splits)

lemma pi_circuit_registers:
  "num_qubits (pi_circuit n) = n + 1"
  "num_clbits (pi_circuit n) = n"
  by (simp_all add: pi_circuit_def circ_measure_each_def circ_barrier_def measure_each_registers
       qft_dagger_registers qpe_pre_registers emit_def QuantumCircuit_def)

text \<open>
  Claim C5. When the most frequent outcome of the run for \<open>n\<close> qubits (from 0 to 1024, where
  the circuit gets built) reads as the integer 0,
  the division in \<open>1 / (2 theta)\<close> is a division by zero that nothing handles:
  \<^verbatim>\<open>get_pi_estimate\<close> ends with \<^verbatim>\<open>ZeroDivisionError\<close>, and a sweep that reaches this call
  (\<open>2 \<le> n \<le> 12\<close>) ends with an exception, with no estimate, printed line or job for \<open>n\<close>'s
  successors; it is this exception when the calls before \<open>n\<close> have returned.
\<close>

theorem zero_mode_aborts_sweep:
  assumes "simulator (pi_circuit n) 10000 0 = Inr cnts"
    and "max_key cnts = Inr s"
    and "int_base2 s = Inr 0"
    and "0 \<le> n" and "n \<le> 1024"
  shows "fst (get_pi_estimate simulator n w) = Inl ZeroDivisionError
       \<and> (2 \<le> n \<and> n \<le> 12 \<longrightarrow>
            (\<exists>e pi_estimates w'. sweep simulator w = (Some e, pi_estimates, w')
               \<and> int (length pi_estimates) \<le> n - 2
               \<and> length (stdout w') = length (stdout w) + length pi_estimates
               \<and> length (jobs w') = length (jobs w) + length pi_estimates + 1
               \<and> ((\<forall>m\<in>set (py_range2 2 n). \<exists>v. fst (get_pi_estimate simulator m w) = Inr v)
                    \<longrightarrow> e = ZeroDivisionError \<and> int (length pi_estimates) = n - 2)))"
proof -
  have fault: "fst (get_pi_estimate simulator n w) = Inl ZeroDivisionError"
    using assms(1-3) by (simp add: get_pi_estimate_result [OF assms(4,5)] two_theta_zero)
  have "\<exists>e pi_estimates w'. sweep simulator w = (Some e, pi_estimates, w')
               \<and> int (length pi_estimates) \<le> n - 2
               \<and> length (stdout w') = length (stdout w) + length pi_estimates
               \<and> length (jobs w') = length (jobs w) + length pi_estimates + 1
               \<and> ((\<forall>m\<in>set (py_range2 2 n). \<exists>v. fst (get_pi_estimate simulator m w) = Inr v)
                    \<longrightarrow> e = ZeroDivisionError \<and> int (length pi_estimates) = n - 2)"
    if range: "2 \<le> n" "n \<le> 12"
  proof -
    have split: "py_range2 2 (12 + 1) = py_range2 2 n @ n # py_range2 (n + 1) (12 + 1)"
      using range by (intro py_range2_split) simp_all
    have before: "\<forall>m\<in>set (py_range2 2 n). 0 \<le> m \<and> m \<le> 1024"
      using range in_py_range2 [of _ 2 n] by fastforce
    from sweep_loop_abort [OF fault assms(4,5) before, where
        ys = "py_range2 (n + 1) (12 + 1)" and acc = "[]" and w = w]
    obtain e ests w' where
      run: "sweep_loop simulator (py_range2 2 n @ n # py_range2 (n + 1) (12 + 1)) [] w = (Some e, [] @ ests, w')"
      and len: "length ests \<le> length (py_range2 2 n)"
      and out: "length (stdout w') = length (stdout w) + length ests"
      and js: "length (jobs w') = length (jobs w) + length ests + 1"
      and first: "(\<forall>m\<in>set (py_range2 2 n). \<exists>v. fst (get_pi_estimate simulator m w) = Inr v)
                    \<longrightarrow> e = ZeroDivisionError \<and> length ests = length (py_range2 2 n)"
      by blast
    have "sweep simulator w = (Some e, ests, w')"
      unfolding sweep_def split using run by simp
    moreover have "int (length ests) \<le> n - 2"
      using len range by (simp add: length_py_range2)
    moreover have "(\<forall>m\<in>set (py_range2 2 n). \<exists>v. fst (get_pi_estimate simulator m w) = Inr v)
                    \<longrightarrow> e = ZeroDivisionError \<and> int (length ests) = n - 2"
      using first range by (simp add: length_py_range2)
    ultimately show ?thesis using out js by blast
  qed
  with fault show ?thesis by blast
qed

lemma stuck_backend_two: "fst (get_pi_estimate stuck_backend 2 empty_world) = Inr 2"
  by (simp add: get_pi_estimate_result stuck_backend_def recorded_backend_def recorded_mode_def
      pi_circuit_registers max_key_def int_base2_def bit_of_def theta_of_def)

theorem zero_mode_aborts_sweep_witness:
  "fst (get_pi_estimate stuck_backend 3 empty_world) = Inl ZeroDivisionError
   \<and> (\<exists>pi_estimates w'. sweep stuck_backend empty_world = (Some ZeroDivisionError, pi_estimates, w')
         \<and> length pi_estimates = 1 \<and> length (stdout w') = 1 \<and> length (jobs w') = 2)"
proof -
  have run: "stuck_backend (pi_circuit 3) 10000 0 = Inr [(''000'', 10000)]"
    by (simp add: stuck_backend_def pi_circuit_registers)
  have mode: "max_key [(''000'', 10000)] = Inr ''000''"
    by (simp add: max_key_def)
  have zero: "int_base2 ''000'' = Inr 0"
    by (simp add: int_base2_def bit_of_def)
  have earlier: "\<forall>m\<in>set (py_range2 2 3). \<exists>v. fst (get_pi_estimate stuck_backend m empty_world) = Inr v"
    using stuck_backend_two by (simp add: py_range2_def)
  show ?thesis
    using zero_mode_aborts_sweep [of stuck_backend 3 "[(''000'', 10000)]" "''000''" empty_world]
      run mode zero earlier
    by (auto simp add: empty_world_def)
qed

text \<open>
  Claim C8. The sweep goes through the qubit counts 2 to 12 in increasing order, calls
  \<^verbatim>\<open>get_pi_estimate\<close> once for each (one job per count, in that order), collects the 11
  results in that order and prints each of them, in a run where every call returns.
\<close>

theorem sweep_collects_in_order:
  assumes "\<forall>nq\<in>set [2, 3, 4, 5, 6, 7, 8, 9, 10, 11, 12].
             \<exists>v. fst (get_pi_estimate simulator nq w) = Inr v"
  shows "\<exists>pi_estimates w'. sweep simulator w = (None, pi_estimates, w')
           \<and> length pi_estimates = 11
           \<and> map Inr pi_estimates =
                map (\<lambda>nq. fst (get_pi_estimate simulator nq w)) [2, 3, 4, 5, 6, 7, 8, 9, 10, 11, 12]
           \<and> stdout w' = stdout w @ zip [2, 3, 4, 5, 6, 7, 8, 9, 10, 11, 12] pi_estimates
           \<and> map fst (jobs w') = map fst (jobs w) @ map pi_circuit [2, 3, 4, 5, 6, 7, 8, 9, 10, 11, 12]"
proof -
  let ?nqs = "[2, 3, 4, 5, 6, 7, 8, 9, 10, 11, 12] :: int list"
  have small: "\<forall>nq\<in>set ?nqs. 0 \<le> nq \<and> nq \<le> 1024" by simp
  from sweep_loop_ok [OF assms small, of "[]" w] obtain ests w' where
    run: "sweep_loop simulator ?nqs [] w = (None, [] @ ests, w')"
    and vals: "map Inr ests = map (\<lambda>nq. fst (get_pi_estimate simulator nq w)) ?nqs"
    and out: "stdout w' = stdout w @ zip ?nqs ests"
    and js: "map fst (jobs w') = map fst (jobs w) @ map pi_circuit ?nqs"
    by blast
  have "length (map Inr ests :: (error + real) list) = length ?nqs"
    unfolding vals by (simp only: length_map)
  then have "length ests = 11" by simp
  moreover have "sweep simulator w = (None, ests, w')"
    unfolding sweep_def py_range2_sweep using run by simp
  ultimately show ?thesis using vals out js by blast
qed

lemma recorded_results:
  "fst (get_pi_estimate recorded_backend 2 w) = Inr 2"
  "fst (get_pi_estimate recorded_backend 3 w) = Inr 4"
  "fst (get_pi_estimate recorded_backend 4 w) = Inr (8 / 3)"
  "fst (get_pi_estimate recorded_backend 5 w) = Inr (16 / 5)"
  "fst (get_pi_estimate recorded_backend 6 w) = Inr (16 / 5)"
  "fst (get_pi_estimate recorded_backend 7 w) = Inr (16 / 5)"
  "fst (get_pi_estimate recorded_backend 8 w) = Inr (128 / 41)"
  "fst (get_pi_estimate recorded_backend 9 w) = Inr (256 / 81)"
  "fst (get_pi_estimate recorded_backend 10 w) = Inr (512 / 163)"
  "fst (get_pi_estimate recorded_backend 11 w) = Inr (512 / 163)"
  "fst (get_pi_estimate recorded_backend 12 w) = Inr (512 / 163)"
  by (simp_all add: get_pi_estimate_result recorded_backend_def recorded_mode_def
      pi_circuit_registers max_key_def int_base2_def bit_of_def theta_of_def)

theorem sweep_collects_in_order_witness:
  "fst (sweep recorded_backend empty_world) = None
   \<and> fst (snd (sweep recorded_backend empty_world)) =
       [2, 4, 8 / 3, 16 / 5, 16 / 5, 16 / 5, 128 / 41, 256 / 81, 512 / 163, 512 / 163, 512 / 163]
   \<and> stdout (snd (snd (sweep recorded_backend empty_world))) =
       [(2, 2), (3, 4), (4, 8 / 3), (5, 16 / 5), (6, 16 / 5), (7, 16 / 5), (8, 128 / 41),
        (9, 256 / 81), (10, 512 / 163), (11, 512 / 163), (12, 512 / 163)]"
proof -
  let ?nqs = "[2, 3, 4, 5, 6, 7, 8, 9, 10, 11, 12] :: int list"
  let ?vals = "[2, 4, 8 / 3, 16 / 5, 16 / 5, 16 / 5, 128 / 41, 256 / 81, 512 / 163, 512 / 163,
     512 / 163] :: real list"
  have ok: "\<forall>nq\<in>set ?nqs. \<exists>v. fst (get_pi_estimate recorded_backend nq empty_world) = Inr v"
    using recorded_results [of empty_world] by (simp only: list.set ball_simps) blast
  from sweep_collects_in_order [OF ok] obtain ests w' where
    run: "sweep recorded_backend empty_world = (None, ests, w')"
    and vals: "map Inr ests = map (\<lambda>nq. fst (get_pi_estimate recorded_backend nq empty_world)) ?nqs"
    and out: "stdout w' = stdout empty_world @ zip ?nqs ests"
    by blast
  have "map Inr ests = (map Inr ?vals :: (error + real) list)"
    unfolding vals by (simp add: recorded_results)
  then have ests: "ests = ?vals"
    by (simp only: inj_map_eq_map [OF inj_Inr])
  show ?thesis
    unfolding run using out by (simp add: ests empty_world_def)
qed

end
